theory Spec2Isabelle
  imports Main
begin

section \<open>JavaScript values and their serialisation\<close>

text \<open>
  The hook \<^verbatim>\<open>useProducts\<close> keys its cache by \<^verbatim>\<open>JSON.stringify(params)\<close> and builds
  query strings with \<^verbatim>\<open>String(value)\<close>.  A JavaScript value is modelled by the datatype
  below; an object is the list of its own enumerable properties in insertion order
  (the order \<^verbatim>\<open>Object.entries\<close>, object spread and \<^verbatim>\<open>JSON.stringify\<close> follow for
  the non-index keys of \<^verbatim>\<open>ProductSearchParams\<close>).  Numbers are integers (page
  numbers, sizes, millisecond clocks); floating point is outside the model.
\<close>

datatype jval =
    JUndefined
  | JNull
  | JBool bool
  | JNum int
  | JStr string
  | JArr "jval list"
  | JObj "(string \<times> jval) list"

text \<open>\<^verbatim>\<open>ProductSearchParams\<close>: an object with the optional fields query, filters, sort,
  page, per_page.\<close>

type_synonym ProductSearchParams = "(string \<times> jval) list"

fun digit_char :: "nat \<Rightarrow> char" where
  "digit_char n = char_of (48 + n)"

fun show_nat :: "nat \<Rightarrow> string" where
  "show_nat n = (if n < 10 then [digit_char n] else show_nat (n div 10) @ [digit_char (n mod 10)])"

definition show_int :: "int \<Rightarrow> string" where
  "show_int i = (if i < 0 then CHR ''-'' # show_nat (nat (- i)) else show_nat (nat i))"

definition hex_char :: "nat \<Rightarrow> char" where
  "hex_char n = (if n < 10 then char_of (48 + n) else char_of (87 + n))"

text \<open>\<^verbatim>\<open>QuoteJSONString\<close> of ECMAScript, on byte characters.\<close>

definition quote_char :: "char \<Rightarrow> string" where
  "quote_char c =
     (let n = of_char c :: nat in
      if n = 8 then [CHR 0x5C, CHR ''b'']
      else if n = 9 then [CHR 0x5C, CHR ''t'']
      else if n = 10 then [CHR 0x5C, CHR ''n'']
      else if n = 12 then [CHR 0x5C, CHR ''f'']
      else if n = 13 then [CHR 0x5C, CHR ''r'']
      else if n = 34 then [CHR 0x5C, CHR 0x22]
      else if n = 92 then [CHR 0x5C, CHR 0x5C]
      else if n < 32 then [CHR 0x5C, CHR ''u'', CHR ''0'', CHR ''0'', hex_char (n div 16), hex_char (n mod 16)]
      else [c])"

definition quote :: "string \<Rightarrow> string" where
  "quote s = CHR 0x22 # concat (map quote_char s) @ [CHR 0x22]"

fun join :: "string \<Rightarrow> string list \<Rightarrow> string" where
  "join sep [] = []"
| "join sep [x] = x"
| "join sep (x # y # ys) = x @ sep @ join sep (y # ys)"

text \<open>
  \<^verbatim>\<open>JSON.stringify\<close>: \<open>None\<close> is the result \<^verbatim>\<open>undefined\<close>.  A property whose value
  serialises to \<^verbatim>\<open>undefined\<close> is left out of an object; such an element of an array
  is written \<^verbatim>\<open>null\<close>.
\<close>

fun stringify :: "jval \<Rightarrow> string option"
  and stringify_props :: "(string \<times> jval) list \<Rightarrow> string list"
  and stringify_elems :: "jval list \<Rightarrow> string list"
where
  "stringify JUndefined = None"
| "stringify JNull = Some ''null''"
| "stringify (JBool b) = Some (if b then ''true'' else ''false'')"
| "stringify (JNum i) = Some (show_int i)"
| "stringify (JStr s) = Some (quote s)"
| "stringify (JArr xs) = Some (''['' @ join '','' (stringify_elems xs) @ '']'')"
| "stringify (JObj kvs) = Some (''{'' @ join '','' (stringify_props kvs) @ ''}'')"
| "stringify_props [] = []"
| "stringify_props (kv # kvs) =
     (case stringify (snd kv) of
        None \<Rightarrow> stringify_props kvs
      | Some t \<Rightarrow> (quote (fst kv) @ '':'' @ t) # stringify_props kvs)"
| "stringify_elems [] = []"
| "stringify_elems (x # xs) =
     (case stringify x of None \<Rightarrow> ''null'' | Some t \<Rightarrow> t) # stringify_elems xs"

text \<open>The string a \<^verbatim>\<open>JSON.stringify\<close> result is used as (\<^verbatim>\<open>undefined\<close> converted to a
  string where one is required).\<close>

definition stringify_text :: "jval \<Rightarrow> string" where
  "stringify_text v = (case stringify v of Some t \<Rightarrow> t | None \<Rightarrow> ''undefined'')"

text \<open>\<^verbatim>\<open>String(value)\<close>; an array is joined with commas, \<^verbatim>\<open>null\<close> and
  \<^verbatim>\<open>undefined\<close> elements giving the empty string.\<close>

fun js_String :: "jval \<Rightarrow> string"
  and js_String_elems :: "jval list \<Rightarrow> string list"
where
  "js_String JUndefined = ''undefined''"
| "js_String JNull = ''null''"
| "js_String (JBool b) = (if b then ''true'' else ''false'')"
| "js_String (JNum i) = show_int i"
| "js_String (JStr s) = s"
| "js_String (JArr xs) = join '','' (js_String_elems xs)"
| "js_String (JObj kvs) = ''[object Object]''"
| "js_String_elems [] = []"
| "js_String_elems (x # xs) =
     (case x of JUndefined \<Rightarrow> [] | JNull \<Rightarrow> [] | _ \<Rightarrow> js_String x) # js_String_elems xs"

text \<open>Property assignment and object spread \<^verbatim>\<open>{ ...a, ...b }\<close>: a key that exists keeps
  its position and takes the new value, a new key is appended.\<close>

fun obj_set :: "(string \<times> jval) list \<Rightarrow> string \<Rightarrow> jval \<Rightarrow> (string \<times> jval) list" where
  "obj_set [] k v = [(k, v)]"
| "obj_set ((k', v') # kvs) k v = (if k' = k then (k, v) # kvs else (k', v') # obj_set kvs k v)"

definition obj_spread :: "(string \<times> jval) list \<Rightarrow> (string \<times> jval) list \<Rightarrow> (string \<times> jval) list" where
  "obj_spread a b = fold (\<lambda>kv acc. obj_set acc (fst kv) (snd kv)) b a"

section \<open>Products and the array store\<close>

datatype ProductStatus = active | inactive | pending | error_status

record Product =
  product_id :: nat
  title :: string
  price :: int
  image_url :: "string option"
  status :: ProductStatus
  created_at :: string
  updated_at :: string

text \<open>
  Arrays of products are JavaScript objects with identity: the cache, the React
  state and the caller can hold the same array.  The store maps an array reference
  to its contents; \<open>alloc\<close> is the creation of a fresh array (an array literal, a
  spread copy \<^verbatim>\<open>[...data]\<close>, the result of \<^verbatim>\<open>response.json()\<close>).
\<close>

record store =
  cells :: "nat \<Rightarrow> Product list"
  next_ref :: nat

definition alloc :: "Product list \<Rightarrow> store \<Rightarrow> nat \<times> store" where
  "alloc xs st = (next_ref st, st\<lparr>cells := (cells st)(next_ref st := xs), next_ref := Suc (next_ref st)\<rparr>)"

text \<open>A caller's in-place mutation \<^verbatim>\<open>xs.push(x)\<close> of the array at reference \<open>r\<close>.\<close>

definition array_push :: "nat \<Rightarrow> Product \<Rightarrow> store \<Rightarrow> store" where
  "array_push r x st = st\<lparr>cells := (cells st)(r := cells st r @ [x])\<rparr>"

section \<open>ProductsCache\<close>

record CacheEntry =
  entry_data :: nat
  timestamp :: int

record ProductsCache =
  cache :: "string \<Rightarrow> CacheEntry option"
  timeout :: int

text \<open>The constructor's default: \<^verbatim>\<open>timeout = 5 * 60 * 1000\<close>.\<close>

definition new_ProductsCache :: ProductsCache where
  "new_ProductsCache = \<lparr>cache = (\<lambda>k. None), timeout = 5 * 60 * 1000\<rparr>"

definition generateKey :: "ProductSearchParams \<Rightarrow> string" where
  "generateKey params = stringify_text (JObj params)"

text \<open>\<^verbatim>\<open>get\<close>: the first argument is the value of \<^verbatim>\<open>Date.now()\<close>; the result is the
  reference \<^verbatim>\<open>cached.data\<close> (or \<open>None\<close> for \<^verbatim>\<open>null\<close>) and the cache after the call.\<close>

definition cache_get :: "int \<Rightarrow> ProductSearchParams \<Rightarrow> ProductsCache \<Rightarrow> nat option \<times> ProductsCache" where
  "cache_get t params c =
     (let key = generateKey params in
      case cache c key of
        None \<Rightarrow> (None, c)
      | Some cached \<Rightarrow>
          if t - timestamp cached > timeout c
          then (None, c\<lparr>cache := (cache c)(key := None)\<rparr>)
          else (Some (entry_data cached), c))"

text \<open>\<^verbatim>\<open>set\<close>: stores a fresh copy \<^verbatim>\<open>[...data]\<close> of the array at reference \<open>d\<close>.\<close>

definition cache_set :: "int \<Rightarrow> ProductSearchParams \<Rightarrow> nat \<Rightarrow> ProductsCache \<times> store \<Rightarrow> ProductsCache \<times> store" where
  "cache_set t params d cs =
     (let key = generateKey params;
          (r, st') = alloc (cells (snd cs) d) (snd cs)
      in ((fst cs)\<lparr>cache := (cache (fst cs))(key \<mapsto> \<lparr>entry_data = r, timestamp = t\<rparr>)\<rparr>, st'))"

definition cache_clear :: "ProductsCache \<Rightarrow> ProductsCache" where
  "cache_clear c = c\<lparr>cache := (\<lambda>k. None)\<rparr>"

section \<open>The state of a mounted \<^verbatim>\<open>useProducts\<close> hook\<close>

record PaginationMetadata =
  current_page :: int
  last_page :: int
  per_page :: int
  total :: int
  has_next_page :: bool
  has_previous_page :: bool

text \<open>\<^verbatim>\<open>ProductsState\<close>; \<open>products\<close> is the reference of the array held in the state.\<close>

record ProductsState =
  products :: nat
  loading :: bool
  error :: "string option"
  pagination :: "PaginationMetadata option"
  lastFetchTime :: "int option"

text \<open>A thrown value: an instance of \<^verbatim>\<open>Error\<close> with its name and message, a string,
  or anything else.\<close>

datatype thrown = JsError string string | JsString string | JsOther

text \<open>The parsed body \<^verbatim>\<open>PaginatedProductResponse\<close>; \<open>None\<close> is a member that is
  \<^verbatim>\<open>undefined\<close> or \<^verbatim>\<open>null\<close> at run time.\<close>

record PaginatedResponse =
  page_data :: "Product list option"
  page_pagination :: "PaginationMetadata option"

record ApiResponse =
  success :: bool
  message :: "string option"
  body_data :: "PaginatedResponse option"

text \<open>What the network gives for a request that was not aborted: the promise of
  \<^verbatim>\<open>fetch\<close> rejects, or there is a response with a status and the outcome of
  \<^verbatim>\<open>response.json()\<close> (\<open>Inl\<close>: it rejects).\<close>

datatype response = Rejected thrown | Response nat "thrown + ApiResponse"

datatype request_kind = FetchRequest | LoadMoreRequest

text \<open>
  A request in flight, with what its suspended continuation holds: the parameters,
  the \<^verbatim>\<open>AbortController\<close> whose signal was passed to \<^verbatim>\<open>fetch\<close> (none in
  \<^verbatim>\<open>loadMore\<close>) and the value of \<^verbatim>\<open>state.loading\<close> in the closure of
  \<^verbatim>\<open>fetchProducts\<close> that issued it (the retry closure calls that same closure).
\<close>

record request =
  rid :: nat
  kind :: request_kind
  req_params :: ProductSearchParams
  query :: "(string \<times> string) list"
  signal :: "nat option"
  closure_loading :: bool

text \<open>An armed \<^verbatim>\<open>setTimeout\<close> of \<^verbatim>\<open>handleError\<close>: its callback clears
  \<^verbatim>\<open>retryTimeoutRef\<close> and calls \<^verbatim>\<open>fetchProducts(params)\<close> of the captured closure.\<close>

record timer =
  tid :: nat
  due :: int
  retry_loading :: bool
  retry_params :: ProductSearchParams

text \<open>
  The hook instance and its environment.  \<open>state\<close> and \<open>searchParams\<close> are the React
  states with every queued update applied; \<open>rendered_state\<close>, \<open>rendered_params\<close> are
  their values at the last render, which is what the callbacks of that render
  read.  \<open>searchParams_id\<close> is the identity of the \<^verbatim>\<open>searchParams\<close> object (React
  compares dependencies with \<^verbatim>\<open>Object.is\<close>).  \<open>productsCache\<close> is the module's
  cache, \<open>clock\<close> the value of \<^verbatim>\<open>Date.now()\<close>.  The refresh interval only ever calls
  \<^verbatim>\<open>refetch\<close> and is left to the event \<open>Refetch\<close>.
\<close>

record hook =
  autoFetch :: bool
  state :: ProductsState
  searchParams :: ProductSearchParams
  searchParams_id :: nat
  abortControllerRef :: "nat option"
  retryTimeoutRef :: "nat option"
  rendered_state :: ProductsState
  rendered_params :: ProductSearchParams
  rendered_params_id :: nat
  productsCache :: ProductsCache
  arrays :: store
  aborted :: "nat list"
  requests :: "request list"
  next_id :: nat
  timers :: "timer list"
  next_timer :: nat
  clock :: int

definition setState :: "(ProductsState \<Rightarrow> ProductsState) \<Rightarrow> hook \<Rightarrow> hook" where
  "setState f s = s\<lparr>state := f (state s)\<rparr>"

definition abort :: "nat \<Rightarrow> hook \<Rightarrow> hook" where
  "abort c s = s\<lparr>aborted := c # aborted s\<rparr>"

definition clearTimeout :: "nat \<Rightarrow> hook \<Rightarrow> hook" where
  "clearTimeout t s = s\<lparr>timers := filter (\<lambda>x. tid x \<noteq> t) (timers s)\<rparr>"

section \<open>handleError (lines 114-134)\<close>

definition error_message :: "thrown \<Rightarrow> string" where
  "error_message e =
     (case e of
        JsError name msg \<Rightarrow> msg
      | JsString str \<Rightarrow> str
      | JsOther \<Rightarrow> ''An unexpected error occurred'')"

text \<open>\<open>retryFn\<close> is the optional retry closure: the captured \<^verbatim>\<open>state.loading\<close> and the
  parameters of the \<^verbatim>\<open>fetchProducts\<close> call to repeat.\<close>

definition handleError :: "thrown \<Rightarrow> (bool \<times> ProductSearchParams) option \<Rightarrow> hook \<Rightarrow> hook" where
  "handleError e retryFn s =
     (let s1 = setState (\<lambda>prev. prev\<lparr>error := Some (error_message e), loading := False\<rparr>) s
      in case retryFn of
           None \<Rightarrow> s1
         | Some cl \<Rightarrow>
             (case retryTimeoutRef s1 of
                Some t \<Rightarrow> s1
              | None \<Rightarrow>
                  s1\<lparr>retryTimeoutRef := Some (next_timer s1),
                     timers := timers s1 @
                       [\<lparr>tid = next_timer s1, due = clock s1 + 2000,
                         retry_loading = fst cl, retry_params = snd cl\<rparr>],
                     next_timer := Suc (next_timer s1)\<rparr>))"

section \<open>fetchProducts (lines 137-218)\<close>

definition is_object :: "jval \<Rightarrow> bool" where
  "is_object v = (case v of JArr xs \<Rightarrow> True | JObj kvs \<Rightarrow> True | _ \<Rightarrow> False)"

text \<open>The entries appended to \<^verbatim>\<open>URLSearchParams\<close> (lines 163-172).\<close>

fun fetch_query :: "ProductSearchParams \<Rightarrow> (string \<times> string) list" where
  "fetch_query [] = []"
| "fetch_query (kv # kvs) =
     (if snd kv = JUndefined then fetch_query kvs
      else if snd kv = JNull then fetch_query kvs
      else if is_object (snd kv) then (fst kv, stringify_text (snd kv)) # fetch_query kvs
      else (fst kv, js_String (snd kv)) # fetch_query kvs)"

text \<open>Lines 157-182: a new controller, \<^verbatim>\<open>loading: true\<close>, and the request.\<close>

definition issue_fetch :: "bool \<Rightarrow> ProductSearchParams \<Rightarrow> hook \<Rightarrow> hook" where
  "issue_fetch cl_loading params s =
     (let c = next_id s;
          s1 = s\<lparr>abortControllerRef := Some c, next_id := Suc c\<rparr>;
          s2 = setState (\<lambda>prev. prev\<lparr>loading := True, error := None\<rparr>) s1
      in s2\<lparr>requests := requests s2 @
            [\<lparr>rid = c, kind = FetchRequest, req_params = params, query = fetch_query params,
              signal = Some c, closure_loading = cl_loading\<rparr>]\<rparr>)"

text \<open>The synchronous part of \<^verbatim>\<open>fetchProducts\<close>, up to \<^verbatim>\<open>await fetch\<close>.  \<open>cl_loading\<close>
  is \<^verbatim>\<open>state.loading\<close> as the closure captured it.\<close>

definition fetchProducts :: "bool \<Rightarrow> ProductSearchParams \<Rightarrow> hook \<Rightarrow> hook" where
  "fetchProducts cl_loading params s =
     (let s1 = (case abortControllerRef s of Some c \<Rightarrow> abort c s | None \<Rightarrow> s);
          got = cache_get (clock s1) params (productsCache s1);
          s2 = s1\<lparr>productsCache := snd got\<rparr>
      in case fst got of
           Some cachedData \<Rightarrow>
             if cl_loading then issue_fetch cl_loading params s2
             else setState (\<lambda>prev. prev\<lparr>products := cachedData, error := None,
                                        lastFetchTime := Some (clock s2)\<rparr>) s2
         | None \<Rightarrow> issue_fetch cl_loading params s2)"

definition response_ok :: "nat \<Rightarrow> bool" where
  "response_ok st = (200 \<le> st \<and> st \<le> 299)"

definition message_or :: "string option \<Rightarrow> string \<Rightarrow> string" where
  "message_or m d = (case m of None \<Rightarrow> d | Some t \<Rightarrow> if t = [] then d else t)"

definition undefined_data_error :: thrown where
  "undefined_data_error = JsError ''TypeError'' ''Cannot read properties of undefined (reading 'data')''"

text \<open>Lines 176-195: what the \<^verbatim>\<open>try\<close> block computes from the response, \<open>Inl\<close> being
  the value it throws.\<close>

definition fetch_result :: "response \<Rightarrow> thrown + (Product list \<times> PaginationMetadata option)" where
  "fetch_result r =
     (case r of
        Rejected e \<Rightarrow> Inl e
      | Response st body \<Rightarrow>
          if response_ok st then
            (case body of
               Inl e \<Rightarrow> Inl e
             | Inr d \<Rightarrow>
                 if success d then
                   (case body_data d of
                      None \<Rightarrow> Inl undefined_data_error
                    | Some pd \<Rightarrow>
                        Inr (case page_data pd of None \<Rightarrow> [] | Some xs \<Rightarrow> xs, page_pagination pd))
                 else Inl (JsError ''Error'' (message_or (message d) ''Failed to fetch products'')))
          else Inl (JsError ''Error'' (''HTTP error! status: '' @ show_nat st)))"

definition is_abort :: "thrown \<Rightarrow> bool" where
  "is_abort e = (case e of JsError name msg \<Rightarrow> name = ''AbortError'' | _ \<Rightarrow> False)"

text \<open>The continuation of \<^verbatim>\<open>fetchProducts\<close> after the awaits (lines 184-215).\<close>

definition fetchProducts_resume :: "request \<Rightarrow> response \<Rightarrow> hook \<Rightarrow> hook" where
  "fetchProducts_resume q r s =
     (case fetch_result r of
        Inr res \<Rightarrow>
          (let parsed = alloc (fst res) (arrays s);
               cs = cache_set (clock s) (req_params q) (fst parsed) (productsCache s, snd parsed)
           in setState (\<lambda>prev. prev\<lparr>products := fst parsed, pagination := snd res, loading := False,
                                      error := None, lastFetchTime := Some (clock s)\<rparr>)
                (s\<lparr>productsCache := fst cs, arrays := snd cs\<rparr>))
      | Inl e \<Rightarrow>
          if is_abort e then s
          else handleError e (Some (closure_loading q, req_params q)) s)"

text \<open>\<^verbatim>\<open>refetch\<close> (lines 221-223), with the values its closure captured.\<close>

definition refetch :: "bool \<Rightarrow> ProductSearchParams \<Rightarrow> hook \<Rightarrow> hook" where
  "refetch cl_loading cl_searchParams s = fetchProducts cl_loading cl_searchParams s"

section \<open>loadMore (lines 226-261)\<close>

text \<open>The synchronous part, with the state and the parameters its closure captured.\<close>

definition loadMore :: "ProductsState \<Rightarrow> ProductSearchParams \<Rightarrow> hook \<Rightarrow> hook" where
  "loadMore cl_state cl_searchParams s =
     (case pagination cl_state of
        None \<Rightarrow> s
      | Some pg \<Rightarrow>
          if has_next_page pg then
            if loading cl_state then s
            else
              (let nextPageParams =
                     obj_set cl_searchParams ''page''
                       (JNum ((if current_page pg = 0 then 0 else current_page pg) + 1));
                   s1 = setState (\<lambda>prev. prev\<lparr>loading := True\<rparr>) s
               in s1\<lparr>requests := requests s1 @
                     [\<lparr>rid = next_id s1, kind = LoadMoreRequest, req_params = nextPageParams,
                       query = map (\<lambda>kv. (fst kv, js_String (snd kv))) nextPageParams,
                       signal = None, closure_loading = loading cl_state\<rparr>],
                     next_id := Suc (next_id s1)\<rparr>)
          else s)"

text \<open>The continuation after the awaits (lines 243-260).\<close>

definition loadMore_resume :: "request \<Rightarrow> response \<Rightarrow> hook \<Rightarrow> hook" where
  "loadMore_resume q r s =
     (case r of
        Rejected e \<Rightarrow> handleError e None s
      | Response st body \<Rightarrow>
          if response_ok st then
            (case body of
               Inl e \<Rightarrow> handleError e None s
             | Inr d \<Rightarrow>
                 if success d then
                   (case body_data d of
                      None \<Rightarrow> handleError undefined_data_error None s
                    | Some pd \<Rightarrow>
                        (case page_data pd of
                           None \<Rightarrow> s
                         | Some xs \<Rightarrow>
                             (let appended = alloc (cells (arrays s) (products (state s)) @ xs) (arrays s)
                              in setState (\<lambda>prev. prev\<lparr>products := fst appended,
                                                         pagination := page_pagination pd,
                                                         loading := False, error := None\<rparr>)
                                   (s\<lparr>arrays := snd appended\<rparr>))))
                 else s)
          else handleError (JsError ''Error'' (''HTTP error! status: '' @ show_nat st)) None s)"

section \<open>updateSearchParams (lines 264-269)\<close>

definition updateSearchParams :: "ProductSearchParams \<Rightarrow> hook \<Rightarrow> hook" where
  "updateSearchParams newParams s =
     s\<lparr>searchParams := obj_spread (searchParams s) newParams,
       searchParams_id := Suc (searchParams_id s)\<rparr>"

section \<open>Rendering and the fetch effect (lines 287-304)\<close>

text \<open>The cleanup the effect returns: abort the current controller, clear the retry
  timeout (the ref keeps the cleared handle).\<close>

definition effect_cleanup :: "hook \<Rightarrow> hook" where
  "effect_cleanup s =
     (let s1 = (case abortControllerRef s of Some c \<Rightarrow> abort c s | None \<Rightarrow> s)
      in case retryTimeoutRef s1 of Some t \<Rightarrow> clearTimeout t s1 | None \<Rightarrow> s1)"

definition effect_setup :: "hook \<Rightarrow> hook" where
  "effect_setup s =
     (if autoFetch s then fetchProducts (loading (rendered_state s)) (rendered_params s) s else s)"

text \<open>
  A render takes the current state into the closures.  The effect has the
  dependencies \<^verbatim>\<open>[autoFetch, fetchProducts, searchParams]\<close>; \<^verbatim>\<open>fetchProducts\<close> is a
  new function exactly when \<^verbatim>\<open>searchParams\<close> or \<^verbatim>\<open>state.loading\<close> changed (its
  other dependencies are constant), so React runs the cleanup and then the effect
  when one of the two differs from the previous render.
\<close>

definition render :: "hook \<Rightarrow> hook" where
  "render s =
     (let same = (loading (state s) = loading (rendered_state s)
                    \<and> searchParams_id s = rendered_params_id s);
          s1 = s\<lparr>rendered_state := state s, rendered_params := searchParams s,
                 rendered_params_id := searchParams_id s\<rparr>
      in if same then s1 else effect_setup (effect_cleanup s1))"

text \<open>The first render and its effect: \<^verbatim>\<open>useState\<close> with \<^verbatim>\<open>loading: autoFetch\<close> and an
  empty array.\<close>

definition mount :: "bool \<Rightarrow> ProductSearchParams \<Rightarrow> ProductsCache \<Rightarrow> store \<Rightarrow> int \<Rightarrow> hook" where
  "mount af initialParams c st t0 =
     (let empty = alloc [] st;
          st0 = \<lparr>products = fst empty, loading = af, error = None, pagination = None,
                 lastFetchTime = None\<rparr>
      in effect_setup
           \<lparr>autoFetch = af, state = st0, searchParams = initialParams, searchParams_id = 0,
            abortControllerRef = None, retryTimeoutRef = None,
            rendered_state = st0, rendered_params = initialParams, rendered_params_id = 0,
            productsCache = c, arrays = snd empty, aborted = [], requests = [], next_id = 0,
            timers = [], next_timer = 0, clock = t0\<rparr>)"

section \<open>Events\<close>

text \<open>
  A request settles: its continuation runs.  When the controller of its signal was
  aborted, \<^verbatim>\<open>fetch\<close> (or \<^verbatim>\<open>response.json()\<close>) rejects with an \<^verbatim>\<open>AbortError\<close>, whatever
  the network has answered.
\<close>

definition abort_error :: thrown where
  "abort_error = JsError ''AbortError'' ''signal is aborted without reason''"

definition delivered :: "request \<Rightarrow> response \<Rightarrow> hook \<Rightarrow> response" where
  "delivered q r s =
     (case signal q of
        None \<Rightarrow> r
      | Some c \<Rightarrow> if c \<in> set (aborted s) then Rejected abort_error else r)"

definition settle :: "nat \<Rightarrow> response \<Rightarrow> hook \<Rightarrow> hook" where
  "settle i r s =
     (case find (\<lambda>q. rid q = i) (requests s) of
        None \<Rightarrow> s
      | Some q \<Rightarrow>
          (let s1 = s\<lparr>requests := filter (\<lambda>q. rid q \<noteq> i) (requests s)\<rparr>
           in case kind q of
                FetchRequest \<Rightarrow> fetchProducts_resume q (delivered q r s) s1
              | LoadMoreRequest \<Rightarrow> loadMore_resume q (delivered q r s) s1))"

text \<open>The callback of an armed retry timeout runs once its delay has passed.\<close>

definition fire :: "nat \<Rightarrow> hook \<Rightarrow> hook" where
  "fire t s =
     (case find (\<lambda>x. tid x = t) (timers s) of
        None \<Rightarrow> s
      | Some x \<Rightarrow>
          if clock s < due x then s
          else fetchProducts (retry_loading x) (retry_params x)
                 (s\<lparr>timers := filter (\<lambda>y. tid y \<noteq> t) (timers s), retryTimeoutRef := None\<rparr>))"

datatype event =
    Render
  | Refetch
  | LoadMore
  | UpdateSearchParams ProductSearchParams
  | ClearCache
  | Settle nat response
  | Fire nat
  | Advance nat

text \<open>The callbacks a caller holds are those of the last render.\<close>

fun step :: "event \<Rightarrow> hook \<Rightarrow> hook" where
  "step Render s = render s"
| "step Refetch s = refetch (loading (rendered_state s)) (rendered_params s) s"
| "step LoadMore s = loadMore (rendered_state s) (rendered_params s) s"
| "step (UpdateSearchParams newParams) s = updateSearchParams newParams s"
| "step ClearCache s = s\<lparr>productsCache := cache_clear (productsCache s)\<rparr>"
| "step (Settle i r) s = settle i r s"
| "step (Fire t) s = fire t s"
| "step (Advance ms) s = s\<lparr>clock := clock s + int ms\<rparr>"

definition run :: "event list \<Rightarrow> hook \<Rightarrow> hook" where
  "run evs s = fold step evs s"

text \<open>The requests in flight that no abort has cancelled.\<close>

definition live :: "hook \<Rightarrow> request \<Rightarrow> bool" where
  "live s q = (case signal q of None \<Rightarrow> True | Some c \<Rightarrow> c \<notin> set (aborted s))"

definition in_flight :: "hook \<Rightarrow> request list" where
  "in_flight s = filter (live s) (requests s)"

text \<open>The armed retry timers.\<close>

definition pending_retries :: "hook \<Rightarrow> nat" where
  "pending_retries s = length (timers s)"

section \<open>Notions used in the properties\<close>

text \<open>The properties of an object that \<^verbatim>\<open>JSON.stringify\<close> writes: those whose value is
  not \<^verbatim>\<open>undefined\<close>, in insertion order.\<close>

definition defined_props :: "ProductSearchParams \<Rightarrow> ProductSearchParams" where
  "defined_props p = filter (\<lambda>kv. snd kv \<noteq> JUndefined) p"

text \<open>The effective fields of a parameter object, as a finite map: a field that is
  absent, \<^verbatim>\<open>undefined\<close> or \<^verbatim>\<open>null\<close> has no value (the test of line 165).\<close>

definition effective_fields :: "ProductSearchParams \<Rightarrow> string \<Rightarrow> jval option" where
  "effective_fields p = map_of (filter (\<lambda>kv. snd kv \<noteq> JUndefined \<and> snd kv \<noteq> JNull) p)"

text \<open>The product list the state shows.\<close>

definition shown_products :: "hook \<Rightarrow> Product list" where
  "shown_products s = cells (arrays s) (products (state s))"

text \<open>Identifiers in use were handed out by the counter: the requests in flight, the
  aborted controllers and the controller in \<^verbatim>\<open>abortControllerRef\<close>.\<close>

definition wf_hook :: "hook \<Rightarrow> bool" where
  "wf_hook s =
     (list_all (\<lambda>q. rid q < next_id s) (requests s)
      \<and> list_all (\<lambda>c. c < next_id s) (aborted s)
      \<and> (case abortControllerRef s of None \<Rightarrow> True | Some c \<Rightarrow> c < next_id s))"

text \<open>Request \<open>i\<close> was superseded: its controller is aborted, and a request with this
  identifier, if still in flight, is a fetch listening to that controller.\<close>

definition superseded :: "nat \<Rightarrow> hook \<Rightarrow> bool" where
  "superseded i s =
     (i < next_id s \<and> i \<in> set (aborted s)
      \<and> list_all (\<lambda>q. rid q \<noteq> i \<or> (kind q = FetchRequest \<and> signal q = Some i)) (requests s))"

text \<open>Request \<open>i\<close> is aborted already or belongs to the current controller, which the
  next \<^verbatim>\<open>fetchProducts\<close> aborts.\<close>

definition tracked :: "nat \<Rightarrow> hook \<Rightarrow> bool" where
  "tracked i s =
     (i < next_id s \<and> (i \<in> set (aborted s) \<or> abortControllerRef s = Some i)
      \<and> list_all (\<lambda>q. rid q \<noteq> i \<or> (kind q = FetchRequest \<and> signal q = Some i)) (requests s))"

text \<open>The parameters object of the last render is not newer than the current one.\<close>

definition params_inv :: "hook \<Rightarrow> bool" where
  "params_inv s = (rendered_params_id s \<le> searchParams_id s)"

text \<open>Every armed retry timer is the one \<^verbatim>\<open>retryTimeoutRef\<close> holds.\<close>

definition retry_inv :: "hook \<Rightarrow> bool" where
  "retry_inv s = (timers s = [] \<or> map (\<lambda>x. Some (tid x)) (timers s) = [retryTimeoutRef s])"

text \<open>The state of \<^verbatim>\<open>fetchProducts\<close> after lines 140-146: the previous controller aborted,
  an expired cache entry evicted.\<close>

definition before_fetch :: "ProductSearchParams \<Rightarrow> hook \<Rightarrow> hook" where
  "before_fetch p s =
     (case abortControllerRef s of Some c \<Rightarrow> abort c s | None \<Rightarrow> s)
       \<lparr>productsCache := snd (cache_get (clock s) p (productsCache s))\<rparr>"

subsection \<open>Example data\<close>

definition empty_store :: store where
  "empty_store = \<lparr>cells = (\<lambda>r. []), next_ref = 0\<rparr>"

definition phone :: Product where
  "phone = \<lparr>product_id = 1, title = ''phone'', price = 100, image_url = None, status = active,
            created_at = ''2024-01-01'', updated_at = ''2024-01-02''\<rparr>"

definition tablet :: Product where
  "tablet = \<lparr>product_id = 2, title = ''tablet'', price = 250, image_url = None, status = active,
             created_at = ''2024-01-01'', updated_at = ''2024-01-02''\<rparr>"

text \<open>A store whose array 0 holds one product.\<close>

definition phone_store :: store where
  "phone_store = \<lparr>cells = (\<lambda>r. if r = 0 then [phone] else []), next_ref = 1\<rparr>"

definition phone_query :: ProductSearchParams where
  "phone_query = [(''query'', JStr ''phone'')]"

definition tablet_query :: ProductSearchParams where
  "tablet_query = [(''query'', JStr ''tablet'')]"

definition first_page :: PaginationMetadata where
  "first_page = \<lparr>current_page = 1, last_page = 2, per_page = 1, total = 2,
                 has_next_page = True, has_previous_page = False\<rparr>"

definition second_page :: PaginationMetadata where
  "second_page = \<lparr>current_page = 2, last_page = 2, per_page = 1, total = 2,
                  has_next_page = False, has_previous_page = True\<rparr>"

definition page_one_ok :: response where
  "page_one_ok = Response 200 (Inr \<lparr>success = True, message = None,
     body_data = Some \<lparr>page_data = Some [phone], page_pagination = Some first_page\<rparr>\<rparr>)"

definition page_two_ok :: response where
  "page_two_ok = Response 200 (Inr \<lparr>success = True, message = None,
     body_data = Some \<lparr>page_data = Some [tablet], page_pagination = Some second_page\<rparr>\<rparr>)"

definition server_error :: response where
  "server_error = Response 500 (Inl JsOther)"

definition refused :: response where
  "refused = Response 200 (Inr \<lparr>success = False, message = Some ''backend down'', body_data = None\<rparr>)"

text \<open>The hook as the page mounts it (\<^verbatim>\<open>autoFetch: true\<close>), and without automatic fetch.\<close>

definition mounted :: hook where
  "mounted = mount True [] new_ProductsCache empty_store 0"

definition mounted_manual :: hook where
  "mounted_manual = mount False [] new_ProductsCache empty_store 0"

text \<open>The mounted hook after its first request has succeeded and React has rendered.\<close>

definition settled_first_page :: hook where
  "settled_first_page = run [Settle 0 page_one_ok, Render, Render] mounted"

section \<open>The cache key\<close>

lemma generateKey_props: "generateKey params = ''{'' @ join '','' (stringify_props params) @ ''}''"
  by (simp add: generateKey_def stringify_text_def)

lemma stringify_undefined: "stringify v = None \<longleftrightarrow> v = JUndefined"
  by (cases v) simp_all

lemma stringify_props_defined: "stringify_props (defined_props p) = stringify_props p"
  by (induction p) (auto simp: defined_props_def stringify_undefined split: option.splits)

text \<open>
  Claim C2, as amended.  The key is \<^verbatim>\<open>JSON.stringify(params)\<close>: two parameter objects
  whose properties that are not \<^verbatim>\<open>undefined\<close> are the same, in the same insertion
  order, have the same key; in particular an absent field and an \<^verbatim>\<open>undefined\<close> one
  give the same key.  (Insertion order and \<^verbatim>\<open>null\<close> values are part of the key.)
\<close>

theorem generateKey_same_order:
  "defined_props p1 = defined_props p2 \<Longrightarrow> generateKey p1 = generateKey p2"
  by (metis generateKey_props stringify_props_defined)

theorem generateKey_same_order_witness:
  "defined_props [(''query'', JStr ''phone''), (''page'', JUndefined)]
     = defined_props [(''sort'', JUndefined), (''query'', JStr ''phone'')]
   \<and> generateKey [(''query'', JStr ''phone''), (''page'', JUndefined)]
     = generateKey [(''sort'', JUndefined), (''query'', JStr ''phone'')]"
proof -
  have h: "defined_props [(''query'', JStr ''phone''), (''page'', JUndefined)]
             = defined_props [(''sort'', JUndefined), (''query'', JStr ''phone'')]"
    by (simp add: defined_props_def)
  from h generateKey_same_order [OF h] show ?thesis by simp
qed

text \<open>
  Claim C2 as stated fails: \<^verbatim>\<open>{query: "phone", page: 1}\<close> and
  \<^verbatim>\<open>{page: 1, query: "phone"}\<close> have the same fields and different keys, and so have
  \<^verbatim>\<open>{query: null}\<close> and \<^verbatim>\<open>{}\<close>.
\<close>

theorem generateKey_order_counterexample:
  "effective_fields [(''query'', JStr ''phone''), (''page'', JNum 1)]
     = effective_fields [(''page'', JNum 1), (''query'', JStr ''phone'')]
   \<and> generateKey [(''query'', JStr ''phone''), (''page'', JNum 1)]
     \<noteq> generateKey [(''page'', JNum 1), (''query'', JStr ''phone'')]
   \<and> effective_fields [(''query'', JNull)] = effective_fields []
   \<and> generateKey [(''query'', JNull)] \<noteq> generateKey []"
proof (intro conjI)
  show "effective_fields [(''query'', JStr ''phone''), (''page'', JNum 1)]
     = effective_fields [(''page'', JNum 1), (''query'', JStr ''phone'')]"
    by (auto simp: effective_fields_def fun_eq_iff)
  show "generateKey [(''query'', JStr ''phone''), (''page'', JNum 1)]
     \<noteq> generateKey [(''page'', JNum 1), (''query'', JStr ''phone'')]"
    by code_simp
  show "effective_fields [(''query'', JNull)] = effective_fields []"
    by (simp add: effective_fields_def)
  show "generateKey [(''query'', JNull)] \<noteq> generateKey []"
    by code_simp
qed

section \<open>Expiry and aliasing in the cache\<close>

text \<open>
  Claim C3.  \<^verbatim>\<open>set\<close> at time \<open>t\<close> stores an entry with timestamp \<open>t\<close> whose array holds
  the items given.  An entry \<open>e\<close> of the cache is served by \<^verbatim>\<open>get\<close> at time \<open>now\<close> when
  \<open>now - timestamp e \<le> timeout\<close>: the array of the entry is returned and the cache
  is unchanged.  When \<open>now - timestamp e > timeout\<close>, \<^verbatim>\<open>get\<close> returns \<^verbatim>\<open>null\<close> and the
  entry is deleted (and no other).
\<close>

theorem cache_get_ttl:
  "(case cache (fst (cache_set t p d (c, st))) (generateKey p) of
      None \<Rightarrow> False
    | Some e \<Rightarrow> timestamp e = t \<and> cells (snd (cache_set t p d (c, st))) (entry_data e) = cells st d)
   \<and> timeout (fst (cache_set t p d (c, st))) = timeout c
   \<and> (cache c' (generateKey p) = Some e' \<longrightarrow>
        (now - timestamp e' \<le> timeout c' \<longrightarrow> cache_get now p c' = (Some (entry_data e'), c'))
      \<and> (now - timestamp e' > timeout c' \<longrightarrow>
           fst (cache_get now p c') = None
         \<and> cache (snd (cache_get now p c')) (generateKey p) = None
         \<and> (\<forall>k. k \<noteq> generateKey p \<longrightarrow> cache (snd (cache_get now p c')) k = cache c' k)))"
  by (simp add: cache_get_def cache_set_def alloc_def Let_def)

text \<open>The scenario of the specification: TTL 300000 ms, stored at 0, read at 299999 and
  at 300001.\<close>

theorem cache_get_ttl_witness:
  "cache (fst (cache_set 0 phone_query 0 (new_ProductsCache, phone_store))) (generateKey phone_query)
     = Some \<lparr>entry_data = 1, timestamp = 0\<rparr>
   \<and> cells (snd (cache_set 0 phone_query 0 (new_ProductsCache, phone_store))) 1 = [phone]
   \<and> cache_get 299999 phone_query (fst (cache_set 0 phone_query 0 (new_ProductsCache, phone_store)))
       = (Some 1, fst (cache_set 0 phone_query 0 (new_ProductsCache, phone_store)))
   \<and> fst (cache_get 300001 phone_query (fst (cache_set 0 phone_query 0 (new_ProductsCache, phone_store)))) = None
   \<and> cache (snd (cache_get 300001 phone_query (fst (cache_set 0 phone_query 0 (new_ProductsCache, phone_store)))))
       (generateKey phone_query) = None"
proof -
  have t: "timeout (fst (cache_set 0 phone_query 0 (new_ProductsCache, phone_store))) = 300000"
    by (simp add: cache_set_def alloc_def new_ProductsCache_def Let_def)
  have a: "cache (fst (cache_set 0 phone_query 0 (new_ProductsCache, phone_store))) (generateKey phone_query)
             = Some \<lparr>entry_data = 1, timestamp = 0\<rparr>"
    by (simp add: cache_set_def alloc_def new_ProductsCache_def phone_store_def Let_def)
  have b: "cells (snd (cache_set 0 phone_query 0 (new_ProductsCache, phone_store))) 1 = [phone]"
    by (simp add: cache_set_def alloc_def phone_store_def Let_def)
  from cache_get_ttl [where now = 299999 and p = phone_query
         and c' = "fst (cache_set 0 phone_query 0 (new_ProductsCache, phone_store))"
         and e' = "\<lparr>entry_data = 1, timestamp = 0\<rparr>"]
       cache_get_ttl [where now = 300001 and p = phone_query
         and c' = "fst (cache_set 0 phone_query 0 (new_ProductsCache, phone_store))"
         and e' = "\<lparr>entry_data = 1, timestamp = 0\<rparr>"] a b t
  show ?thesis by simp
qed

text \<open>
  Claim C9 at its failing input.  \<^verbatim>\<open>get\<close> returns the array the cache holds
  (\<^verbatim>\<open>return cached.data\<close>), not a copy: after \<^verbatim>\<open>set(params, [phone])\<close>, a caller that
  pushes onto the array it got changes what the next \<^verbatim>\<open>get\<close> gives.
\<close>

theorem cache_get_returns_stored_array:
  "(let cs = cache_set 0 phone_query 0 (new_ProductsCache, phone_store);
        g1 = cache_get 10 phone_query (fst cs);
        mutated = array_push 1 tablet (snd cs);
        g2 = cache_get 20 phone_query (snd g1)
    in fst g1 = Some 1 \<and> cells (snd cs) 1 = [phone]
     \<and> fst g2 = Some 1 \<and> cells mutated 1 = [phone, tablet])"
  by (simp add: cache_get_def cache_set_def alloc_def array_push_def new_ProductsCache_def
      phone_store_def Let_def)

section \<open>Object spread\<close>

lemma map_of_obj_set: "map_of (obj_set kvs k v) = (map_of kvs)(k \<mapsto> v)"
  by (induction kvs) (auto simp: fun_eq_iff)

lemma map_of_query: "map_of (map (\<lambda>kv. (fst kv, f (snd kv))) kvs) k = map_option f (map_of kvs k)"
  by (induction kvs) auto

lemma map_of_obj_spread_aux:
  "map_of (fold (\<lambda>kv acc. obj_set acc (fst kv) (snd kv)) b a) = map_of a ++ map_of (rev b)"
  by (induction b arbitrary: a) (auto simp: map_of_obj_set fun_eq_iff map_add_def split: option.splits)

lemma map_of_rev_distinct: "distinct (map fst xs) \<Longrightarrow> map_of (rev xs) = map_of xs"
proof (induction xs)
  case Nil
  then show ?case by simp
next
  case (Cons x xs)
  then have "fst x \<notin> dom (map_of xs)" by (simp add: dom_map_of_conv_image_fst)
  with Cons show ?case
    by (auto simp: fun_eq_iff map_add_def domIff split: option.splits)
qed

lemma map_of_obj_spread: "distinct (map fst b) \<Longrightarrow> map_of (obj_spread a b) = map_of a ++ map_of b"
  by (simp add: obj_spread_def map_of_obj_spread_aux map_of_rev_distinct)

section \<open>The parts of fetchProducts\<close>

lemma before_fetch_fields:
  "requests (before_fetch p s) = requests s"
  "next_id (before_fetch p s) = next_id s"
  "state (before_fetch p s) = state s"
  "arrays (before_fetch p s) = arrays s"
  "clock (before_fetch p s) = clock s"
  "timers (before_fetch p s) = timers s"
  "retryTimeoutRef (before_fetch p s) = retryTimeoutRef s"
  "aborted (before_fetch p s) = (case abortControllerRef s of Some c \<Rightarrow> c # aborted s | None \<Rightarrow> aborted s)"
  by (simp_all add: before_fetch_def abort_def split: option.splits)

lemma issue_fetch_fields:
  "abortControllerRef (issue_fetch l p s) = Some (next_id s)"
  "next_id (issue_fetch l p s) = Suc (next_id s)"
  "aborted (issue_fetch l p s) = aborted s"
  "arrays (issue_fetch l p s) = arrays s"
  "productsCache (issue_fetch l p s) = productsCache s"
  "clock (issue_fetch l p s) = clock s"
  "timers (issue_fetch l p s) = timers s"
  "retryTimeoutRef (issue_fetch l p s) = retryTimeoutRef s"
  "requests (issue_fetch l p s) = requests s @
     [\<lparr>rid = next_id s, kind = FetchRequest, req_params = p, query = fetch_query p,
       signal = Some (next_id s), closure_loading = l\<rparr>]"
  by (simp_all add: issue_fetch_def setState_def Let_def)

lemma fetchProducts_alt:
  "fetchProducts l p s =
     (case fst (cache_get (clock s) p (productsCache s)) of
        Some d \<Rightarrow>
          if l then issue_fetch l p (before_fetch p s)
          else setState (\<lambda>prev. prev\<lparr>products := d, error := None, lastFetchTime := Some (clock s)\<rparr>)
                 (before_fetch p s)
      | None \<Rightarrow> issue_fetch l p (before_fetch p s))"
  by (simp add: fetchProducts_def before_fetch_def abort_def Let_def split: option.splits)

lemma fetchProducts_issued:
  "requests (fetchProducts l p s) \<noteq> requests s \<Longrightarrow> fetchProducts l p s = issue_fetch l p (before_fetch p s)"
  by (simp add: fetchProducts_alt before_fetch_fields setState_def split: option.splits if_splits)

section \<open>A superseded request stays superseded\<close>

lemma superseded_handleError: "superseded i s \<Longrightarrow> superseded i (handleError e rf s)"
  by (auto simp: superseded_def handleError_def setState_def Let_def split: option.splits)

lemma superseded_fetchProducts: "superseded i s \<Longrightarrow> superseded i (fetchProducts l p s)"
  by (auto simp: superseded_def fetchProducts_def issue_fetch_def setState_def abort_def Let_def
      list_all_iff split: option.splits)

lemma superseded_loadMore: "superseded i s \<Longrightarrow> superseded i (loadMore cs sp s)"
  by (auto simp: superseded_def loadMore_def setState_def Let_def list_all_iff split: option.splits)

lemma superseded_fetchProducts_resume: "superseded i s \<Longrightarrow> superseded i (fetchProducts_resume q r s)"
  by (auto simp: fetchProducts_resume_def superseded_handleError split: sum.splits)
     (auto simp: superseded_def setState_def Let_def)

lemma superseded_loadMore_resume: "superseded i s \<Longrightarrow> superseded i (loadMore_resume q r s)"
  by (auto simp: loadMore_resume_def superseded_handleError
      split: response.splits sum.splits option.splits)
     (auto simp: superseded_def setState_def Let_def)

lemma superseded_drop: "superseded i s \<Longrightarrow> superseded i (s\<lparr>requests := filter P (requests s)\<rparr>)"
  by (auto simp: superseded_def list_all_iff)

lemma superseded_settle: "superseded i s \<Longrightarrow> superseded i (settle j r s)"
  by (auto simp: settle_def Let_def superseded_drop superseded_fetchProducts_resume
      superseded_loadMore_resume split: option.splits request_kind.splits)

lemma superseded_cleanup: "superseded i s \<Longrightarrow> superseded i (effect_cleanup s)"
  by (auto simp: superseded_def effect_cleanup_def abort_def clearTimeout_def Let_def
      split: option.splits)

lemma superseded_render: "superseded i s \<Longrightarrow> superseded i (render s)"
proof -
  assume a: "superseded i s"
  define s1 where "s1 = s\<lparr>rendered_state := state s, rendered_params := searchParams s,
                           rendered_params_id := searchParams_id s\<rparr>"
  have 1: "superseded i s1" using a unfolding s1_def by (simp add: superseded_def)
  then have 2: "superseded i (effect_setup (effect_cleanup s1))"
    by (simp add: effect_setup_def superseded_cleanup superseded_fetchProducts)
  have "render s = (if loading (state s) = loading (rendered_state s)
                        \<and> searchParams_id s = rendered_params_id s
                    then s1 else effect_setup (effect_cleanup s1))"
    unfolding render_def s1_def Let_def by (rule refl)
  with 1 2 show ?thesis by simp
qed

lemma superseded_fire: "superseded i s \<Longrightarrow> superseded i (fire t s)"
proof -
  assume a: "superseded i s"
  have "superseded i (s\<lparr>timers := ts, retryTimeoutRef := None\<rparr>)" for ts
    using a by (simp add: superseded_def)
  with a show ?thesis
    by (auto simp: fire_def superseded_fetchProducts split: option.splits)
qed

lemma superseded_step: "superseded i s \<Longrightarrow> superseded i (step e s)"
proof (cases e)
  case Render
  then show "superseded i s \<Longrightarrow> ?thesis" by (simp add: superseded_render)
next
  case Refetch
  then show "superseded i s \<Longrightarrow> ?thesis" by (simp add: refetch_def superseded_fetchProducts)
next
  case LoadMore
  then show "superseded i s \<Longrightarrow> ?thesis" by (simp add: superseded_loadMore)
next
  case (UpdateSearchParams np)
  then show "superseded i s \<Longrightarrow> ?thesis" by (simp add: updateSearchParams_def superseded_def)
next
  case ClearCache
  then show "superseded i s \<Longrightarrow> ?thesis" by (simp add: superseded_def)
next
  case (Settle j r)
  then show "superseded i s \<Longrightarrow> ?thesis" by (simp add: superseded_settle)
next
  case (Fire t)
  then show "superseded i s \<Longrightarrow> ?thesis" by (simp add: superseded_fire)
next
  case (Advance ms)
  then show "superseded i s \<Longrightarrow> ?thesis" by (simp add: superseded_def)
qed

lemma superseded_run: "superseded i s \<Longrightarrow> superseded i (run evs s)"
  unfolding run_def by (induction evs arbitrary: s) (auto simp: superseded_step)

lemma find_rid: "find (\<lambda>q. rid q = i) qs = Some q \<Longrightarrow> rid q = i \<and> q \<in> set qs"
  by (induction qs) (auto split: if_splits)

lemma find_append_fresh:
  "list_all (\<lambda>q. rid q \<noteq> j) xs \<Longrightarrow> find (\<lambda>q. rid q = j) (xs @ ys) = find (\<lambda>q. rid q = j) ys"
  by (induction xs) auto

lemma filter_fresh: "list_all (\<lambda>q. rid q \<noteq> j) xs \<Longrightarrow> filter (\<lambda>q. rid q \<noteq> j) xs = xs"
  by (induction xs) auto

text \<open>The continuation of a superseded request only leaves the list of requests.\<close>

lemma superseded_settle_eq:
  assumes "superseded i s"
  shows "settle i r s = s\<lparr>requests := filter (\<lambda>q. rid q \<noteq> i) (requests s)\<rparr>"
proof (cases "find (\<lambda>q. rid q = i) (requests s)")
  case None
  then have "list_all (\<lambda>q. rid q \<noteq> i) (requests s)"
    by (simp add: find_None_iff list_all_iff)
  then have "filter (\<lambda>q. rid q \<noteq> i) (requests s) = requests s" by (rule filter_fresh)
  with None show ?thesis by (simp add: settle_def)
next
  case (Some q)
  from find_rid [OF Some] assms
  have k: "kind q = FetchRequest" "signal q = Some i" "i \<in> set (aborted s)"
    by (auto simp: superseded_def list_all_iff)
  then have d: "delivered q r s = Rejected abort_error" by (simp add: delivered_def)
  show ?thesis
    by (simp add: settle_def Some k d fetchProducts_resume_def fetch_result_def abort_error_def
        is_abort_def)
qed

lemma superseded_settle_frame:
  assumes "superseded i s"
  shows "state (settle i r s) = state s \<and> productsCache (settle i r s) = productsCache s
         \<and> arrays (settle i r s) = arrays s"
  by (simp add: superseded_settle_eq [OF assms])

section \<open>A live fetch that succeeds is applied\<close>

lemma fetchProducts_resume_success:
  assumes "fetch_result r = Inr (items, pg)"
  shows "shown_products (fetchProducts_resume q r s) = items
       \<and> pagination (state (fetchProducts_resume q r s)) = pg
       \<and> loading (state (fetchProducts_resume q r s)) = False
       \<and> error (state (fetchProducts_resume q r s)) = None"
  using assms
  by (simp add: shown_products_def fetchProducts_resume_def setState_def cache_set_def alloc_def
      Let_def split: prod.splits)

lemma settle_live_fetch:
  assumes "find (\<lambda>q. rid q = j) (requests s) = Some q" and "kind q = FetchRequest"
    and "signal q = Some c" and "c \<notin> set (aborted s)" and "fetch_result r = Inr (items, pg)"
  shows "shown_products (settle j r s) = items
       \<and> pagination (state (settle j r s)) = pg
       \<and> loading (state (settle j r s)) = False
       \<and> error (state (settle j r s)) = None"
proof -
  have d: "delivered q r s = r" using assms(3,4) by (simp add: delivered_def)
  have "settle j r s = fetchProducts_resume q r (s\<lparr>requests := filter (\<lambda>q. rid q \<noteq> j) (requests s)\<rparr>)"
    by (simp add: settle_def assms(1,2) d)
  then show ?thesis using fetchProducts_resume_success [OF assms(5)] by simp
qed

section \<open>Identifiers stay well formed\<close>

lemma wf_hook_cong:
  "next_id s' = next_id s \<Longrightarrow> aborted s' = aborted s \<Longrightarrow> requests s' = requests s
   \<Longrightarrow> abortControllerRef s' = abortControllerRef s \<Longrightarrow> wf_hook s' = wf_hook s"
  by (simp add: wf_hook_def split: option.splits)

lemma wf_hook_setState: "wf_hook (setState f s) = wf_hook s"
  by (rule wf_hook_cong) (simp_all add: setState_def)

lemma wf_hook_handleError: "wf_hook (handleError e rf s) = wf_hook s"
  by (rule wf_hook_cong) (simp_all add: handleError_def setState_def Let_def split: option.splits)

lemma wf_hook_before_fetch: "wf_hook s \<Longrightarrow> wf_hook (before_fetch p s)"
  by (auto simp: wf_hook_def before_fetch_def abort_def split: option.splits)

lemma wf_hook_issue_fetch: "wf_hook s \<Longrightarrow> wf_hook (issue_fetch l p s)"
  by (auto simp: wf_hook_def issue_fetch_fields list_all_iff less_Suc_eq)

lemma wf_hook_fetchProducts: "wf_hook s \<Longrightarrow> wf_hook (fetchProducts l p s)"
  by (simp add: fetchProducts_alt wf_hook_issue_fetch wf_hook_before_fetch wf_hook_setState
      split: option.splits)

lemma wf_hook_loadMore: "wf_hook s \<Longrightarrow> wf_hook (loadMore cs sp s)"
  by (auto simp: wf_hook_def loadMore_def setState_def Let_def list_all_iff less_Suc_eq
      split: option.splits)

lemma wf_hook_fetchProducts_resume: "wf_hook (fetchProducts_resume q r s) = wf_hook s"
  by (rule wf_hook_cong)
     (simp_all add: fetchProducts_resume_def handleError_def setState_def Let_def
        split: sum.splits option.splits)

lemma wf_hook_loadMore_resume: "wf_hook (loadMore_resume q r s) = wf_hook s"
  by (rule wf_hook_cong)
     (simp_all add: loadMore_resume_def handleError_def setState_def Let_def
        split: response.splits sum.splits option.splits)

lemma wf_hook_drop: "wf_hook s \<Longrightarrow> wf_hook (s\<lparr>requests := filter P (requests s)\<rparr>)"
  by (auto simp: wf_hook_def list_all_iff split: option.splits)

lemma wf_hook_settle: "wf_hook s \<Longrightarrow> wf_hook (settle j r s)"
  by (auto simp: settle_def Let_def wf_hook_drop wf_hook_fetchProducts_resume
      wf_hook_loadMore_resume split: option.splits request_kind.splits)

lemma wf_hook_cleanup: "wf_hook s \<Longrightarrow> wf_hook (effect_cleanup s)"
  by (auto simp: wf_hook_def effect_cleanup_def abort_def clearTimeout_def Let_def
      split: option.splits)

lemma wf_hook_render: "wf_hook s \<Longrightarrow> wf_hook (render s)"
proof -
  assume a: "wf_hook s"
  define s1 where "s1 = s\<lparr>rendered_state := state s, rendered_params := searchParams s,
                           rendered_params_id := searchParams_id s\<rparr>"
  have 1: "wf_hook s1" using a unfolding s1_def by (simp add: wf_hook_def split: option.splits)
  then have 2: "wf_hook (effect_setup (effect_cleanup s1))"
    by (simp add: effect_setup_def wf_hook_cleanup wf_hook_fetchProducts)
  have "render s = (if loading (state s) = loading (rendered_state s)
                        \<and> searchParams_id s = rendered_params_id s
                    then s1 else effect_setup (effect_cleanup s1))"
    unfolding render_def s1_def Let_def by (rule refl)
  with 1 2 show ?thesis by simp
qed

lemma wf_hook_fire: "wf_hook s \<Longrightarrow> wf_hook (fire t s)"
proof -
  assume a: "wf_hook s"
  have "wf_hook (s\<lparr>timers := ts, retryTimeoutRef := None\<rparr>)" for ts
    using a by (simp add: wf_hook_def split: option.splits)
  with a show ?thesis
    by (auto simp: fire_def wf_hook_fetchProducts split: option.splits)
qed

lemma wf_hook_step: "wf_hook s \<Longrightarrow> wf_hook (step e s)"
proof (cases e)
  case Render
  then show "wf_hook s \<Longrightarrow> ?thesis" by (simp add: wf_hook_render)
next
  case Refetch
  then show "wf_hook s \<Longrightarrow> ?thesis" by (simp add: refetch_def wf_hook_fetchProducts)
next
  case LoadMore
  then show "wf_hook s \<Longrightarrow> ?thesis" by (simp add: wf_hook_loadMore)
next
  case (UpdateSearchParams np)
  then show "wf_hook s \<Longrightarrow> ?thesis" by (simp add: updateSearchParams_def wf_hook_def split: option.splits)
next
  case ClearCache
  then show "wf_hook s \<Longrightarrow> ?thesis" by (simp add: wf_hook_def split: option.splits)
next
  case (Settle j r)
  then show "wf_hook s \<Longrightarrow> ?thesis" by (simp add: wf_hook_settle)
next
  case (Fire t)
  then show "wf_hook s \<Longrightarrow> ?thesis" by (simp add: wf_hook_fire)
next
  case (Advance ms)
  then show "wf_hook s \<Longrightarrow> ?thesis" by (simp add: wf_hook_def split: option.splits)
qed

lemma wf_hook_run: "wf_hook s \<Longrightarrow> wf_hook (run evs s)"
  unfolding run_def by (induction evs arbitrary: s) (auto simp: wf_hook_step)

lemma effect_setup_cases: "effect_setup s = s \<or> (\<exists>l p. effect_setup s = fetchProducts l p s)"
  by (auto simp: effect_setup_def)

lemma wf_hook_mount: "wf_hook (mount af ip c st t0)"
proof -
  obtain s0 where m: "mount af ip c st t0 = effect_setup s0" and 0: "requests s0 = []"
    "aborted s0 = []" "abortControllerRef s0 = None"
    by (simp add: mount_def Let_def)
  from 0 have "wf_hook s0" by (simp add: wf_hook_def)
  then show ?thesis using effect_setup_cases [of s0] by (auto simp: m wf_hook_fetchProducts)
qed

section \<open>Supersession of a fetch\<close>

lemma tracked_cong:
  "next_id s' = next_id s \<Longrightarrow> aborted s' = aborted s \<Longrightarrow> requests s' = requests s
   \<Longrightarrow> abortControllerRef s' = abortControllerRef s \<Longrightarrow> tracked i s' = tracked i s"
  by (simp add: tracked_def)

lemma tracked_superseded: "tracked i s \<Longrightarrow> superseded i (fetchProducts l p s)"
proof -
  assume a: "tracked i s"
  then have "superseded i (before_fetch p s)"
    by (auto simp: tracked_def superseded_def before_fetch_fields split: option.splits)
  then show ?thesis
    by (auto simp: fetchProducts_alt superseded_def issue_fetch_fields setState_def list_all_iff
        split: option.splits)
qed

lemma superseded_tracked: "superseded i s \<Longrightarrow> tracked i s"
  by (simp add: superseded_def tracked_def)

lemma tracked_fetchProducts: "tracked i s \<Longrightarrow> tracked i (fetchProducts l p s)"
  by (rule superseded_tracked) (rule tracked_superseded)

lemma tracked_handleError: "tracked i (handleError e rf s) = tracked i s"
  by (rule tracked_cong) (simp_all add: handleError_def setState_def Let_def split: option.splits)

lemma tracked_loadMore: "tracked i s \<Longrightarrow> tracked i (loadMore cs sp s)"
  by (auto simp: tracked_def loadMore_def setState_def Let_def list_all_iff split: option.splits)

lemma tracked_fetchProducts_resume: "tracked i (fetchProducts_resume q r s) = tracked i s"
  by (rule tracked_cong)
     (simp_all add: fetchProducts_resume_def handleError_def setState_def Let_def
        split: sum.splits option.splits)

lemma tracked_loadMore_resume: "tracked i (loadMore_resume q r s) = tracked i s"
  by (rule tracked_cong)
     (simp_all add: loadMore_resume_def handleError_def setState_def Let_def
        split: response.splits sum.splits option.splits)

lemma tracked_drop: "tracked i s \<Longrightarrow> tracked i (s\<lparr>requests := filter P (requests s)\<rparr>)"
  by (auto simp: tracked_def list_all_iff)

lemma tracked_settle: "tracked i s \<Longrightarrow> tracked i (settle j r s)"
  by (auto simp: settle_def Let_def tracked_drop tracked_fetchProducts_resume
      tracked_loadMore_resume split: option.splits request_kind.splits)

lemma tracked_cleanup: "tracked i s \<Longrightarrow> tracked i (effect_cleanup s)"
  by (auto simp: tracked_def effect_cleanup_def abort_def clearTimeout_def Let_def
      split: option.splits)

lemma tracked_render: "tracked i s \<Longrightarrow> tracked i (render s)"
proof -
  assume a: "tracked i s"
  define s1 where "s1 = s\<lparr>rendered_state := state s, rendered_params := searchParams s,
                           rendered_params_id := searchParams_id s\<rparr>"
  have 1: "tracked i s1" using a unfolding s1_def by (simp add: tracked_def)
  then have 2: "tracked i (effect_setup (effect_cleanup s1))"
    by (simp add: effect_setup_def tracked_cleanup tracked_fetchProducts)
  have "render s = (if loading (state s) = loading (rendered_state s)
                        \<and> searchParams_id s = rendered_params_id s
                    then s1 else effect_setup (effect_cleanup s1))"
    unfolding render_def s1_def Let_def by (rule refl)
  with 1 2 show ?thesis by simp
qed

lemma tracked_fire: "tracked i s \<Longrightarrow> tracked i (fire t s)"
proof -
  assume a: "tracked i s"
  have "tracked i (s\<lparr>timers := ts, retryTimeoutRef := None\<rparr>)" for ts
    using a by (simp add: tracked_def)
  with a show ?thesis
    by (auto simp: fire_def tracked_fetchProducts split: option.splits)
qed

lemma tracked_step: "tracked i s \<Longrightarrow> tracked i (step e s)"
proof (cases e)
  case Render
  then show "tracked i s \<Longrightarrow> ?thesis" by (simp add: tracked_render)
next
  case Refetch
  then show "tracked i s \<Longrightarrow> ?thesis" by (simp add: refetch_def tracked_fetchProducts)
next
  case LoadMore
  then show "tracked i s \<Longrightarrow> ?thesis" by (simp add: tracked_loadMore)
next
  case (UpdateSearchParams np)
  then show "tracked i s \<Longrightarrow> ?thesis" by (simp add: updateSearchParams_def tracked_def)
next
  case ClearCache
  then show "tracked i s \<Longrightarrow> ?thesis" by (simp add: tracked_def)
next
  case (Settle j r)
  then show "tracked i s \<Longrightarrow> ?thesis" by (simp add: tracked_settle)
next
  case (Fire t)
  then show "tracked i s \<Longrightarrow> ?thesis" by (simp add: tracked_fire)
next
  case (Advance ms)
  then show "tracked i s \<Longrightarrow> ?thesis" by (simp add: tracked_def)
qed

lemma tracked_run: "tracked i s \<Longrightarrow> tracked i (run evs s)"
  unfolding run_def by (induction evs arbitrary: s) (auto simp: tracked_step)

lemma issued_tracked:
  assumes "wf_hook s" and "requests (fetchProducts l p s) \<noteq> requests s"
  shows "tracked (next_id s) (fetchProducts l p s)"
proof -
  have eq: "fetchProducts l p s = issue_fetch l p (before_fetch p s)"
    using assms(2) by (rule fetchProducts_issued)
  have old: "list_all (\<lambda>q. rid q < next_id s) (requests s)"
    using assms(1) by (simp add: wf_hook_def)
  then show ?thesis
    by (auto simp: tracked_def eq issue_fetch_fields before_fetch_fields list_all_iff)
qed

lemma issued_live:
  assumes wf: "wf_hook s" and b: "requests (fetchProducts l p s) \<noteq> requests s"
  shows "\<exists>q. requests (fetchProducts l p s) = requests s @ [q]
           \<and> rid q = next_id s \<and> kind q = FetchRequest \<and> signal q = Some (next_id s)
           \<and> next_id s \<notin> set (aborted (fetchProducts l p s))"
proof -
  have eq: "fetchProducts l p s = issue_fetch l p (before_fetch p s)"
    using b by (rule fetchProducts_issued)
  have ab: "list_all (\<lambda>c. c < next_id s) (aborted s)"
    and ref: "(case abortControllerRef s of None \<Rightarrow> True | Some c \<Rightarrow> c < next_id s)"
    using wf by (simp_all add: wf_hook_def)
  have "list_all (\<lambda>c. c < next_id s) (aborted (fetchProducts l p s))"
    using ab ref by (simp add: eq issue_fetch_fields before_fetch_fields split: option.splits)
  then have 1: "next_id s \<notin> set (aborted (fetchProducts l p s))"
    by (auto simp: list_all_iff)
  from 1 show ?thesis by (simp add: eq issue_fetch_fields before_fetch_fields)
qed

lemma latest_fetch_applied:
  assumes wf: "wf_hook s" and i: "tracked i s"
    and b: "requests (fetchProducts l p s) \<noteq> requests s"
    and ok: "fetch_result rB = Inr (items, pg)"
  shows "shown_products (settle (next_id s) rB (settle i rA (fetchProducts l p s))) = items
       \<and> pagination (state (settle (next_id s) rB (settle i rA (fetchProducts l p s)))) = pg
       \<and> shown_products (settle i rA (settle (next_id s) rB (fetchProducts l p s))) = items
       \<and> pagination (state (settle i rA (settle (next_id s) rB (fetchProducts l p s)))) = pg"
proof -
  define sB where "sB = fetchProducts l p s"
  obtain qB where rq: "requests sB = requests s @ [qB]" and ids: "rid qB = next_id s"
    and kB: "kind qB = FetchRequest" "signal qB = Some (next_id s)"
    and live: "next_id s \<notin> set (aborted sB)"
    using issued_live [OF wf b] unfolding sB_def by blast
  have old: "list_all (\<lambda>q. rid q \<noteq> next_id s) (requests s)"
    using wf by (auto simp: wf_hook_def list_all_iff)
  have sup: "superseded i sB"
    unfolding sB_def using i by (rule tracked_superseded)
  \<comment> \<open>the later request settles first\<close>
  have fB: "find (\<lambda>q. rid q = next_id s) (requests sB) = Some qB"
    by (simp add: rq find_append_fresh [OF old] ids)
  note B1 = settle_live_fetch [OF fB kB live ok]
  have sup': "superseded i (settle (next_id s) rB sB)"
    using sup by (rule superseded_settle)
  have second: "shown_products (settle i rA (settle (next_id s) rB sB)) = items
       \<and> pagination (state (settle i rA (settle (next_id s) rB sB))) = pg"
    using superseded_settle_frame [OF sup', of rA] B1 by (simp add: shown_products_def)
  \<comment> \<open>the superseded request settles first\<close>
  have eqA: "settle i rA sB = sB\<lparr>requests := filter (\<lambda>q. rid q \<noteq> i) (requests sB)\<rparr>"
    using sup by (rule superseded_settle_eq)
  have ne: "i \<noteq> next_id s" using i by (simp add: tracked_def)
  have old': "list_all (\<lambda>q. rid q \<noteq> next_id s) (filter (\<lambda>q. rid q \<noteq> i) (requests s))"
    using old by (auto simp: list_all_iff)
  have fB': "find (\<lambda>q. rid q = next_id s) (requests (settle i rA sB)) = Some qB"
    using ne by (simp add: eqA rq ids find_append_fresh [OF old'])
  have live': "next_id s \<notin> set (aborted (settle i rA sB))"
    using live by (simp add: eqA)
  note A1 = settle_live_fetch [OF fB' kB live' ok]
  from A1 second show ?thesis unfolding sB_def by simp
qed

text \<open>
  Claim C1.  Let \<^verbatim>\<open>fetchProducts(pA)\<close> issue a request (its identifier is \<open>next_id s\<close>) and
  let \<^verbatim>\<open>fetchProducts(pB)\<close> be called later, after any events \<open>evs1\<close>.  Then, whatever
  happens afterwards (\<open>evs2\<close>) and whatever the network answers for the first
  request (\<open>r\<close>), its continuation changes neither the state, nor the cache, nor any
  array: the request was aborted and the \<^verbatim>\<open>catch\<close> block returns on \<^verbatim>\<open>AbortError\<close>.
  When the second call issues a request too and that request succeeds, the state
  shows its items and its pagination, whichever of the two settles first.
\<close>

theorem superseded_fetch_never_applied:
  assumes "wf_hook s" and "requests (fetchProducts lA pA s) \<noteq> requests s"
  shows "\<forall>evs1.
      (\<forall>evs2 r.
          state (settle (next_id s) r (run evs2 (fetchProducts lB pB (run evs1 (fetchProducts lA pA s)))))
            = state (run evs2 (fetchProducts lB pB (run evs1 (fetchProducts lA pA s))))
        \<and> productsCache (settle (next_id s) r (run evs2 (fetchProducts lB pB (run evs1 (fetchProducts lA pA s)))))
            = productsCache (run evs2 (fetchProducts lB pB (run evs1 (fetchProducts lA pA s))))
        \<and> arrays (settle (next_id s) r (run evs2 (fetchProducts lB pB (run evs1 (fetchProducts lA pA s)))))
            = arrays (run evs2 (fetchProducts lB pB (run evs1 (fetchProducts lA pA s)))))
    \<and> (requests (fetchProducts lB pB (run evs1 (fetchProducts lA pA s)))
          \<noteq> requests (run evs1 (fetchProducts lA pA s)) \<longrightarrow>
        (\<forall>rA rB items pg. fetch_result rB = Inr (items, pg) \<longrightarrow>
           shown_products (settle (next_id (run evs1 (fetchProducts lA pA s))) rB (settle (next_id s) rA
             (fetchProducts lB pB (run evs1 (fetchProducts lA pA s))))) = items
         \<and> pagination (state (settle (next_id (run evs1 (fetchProducts lA pA s))) rB (settle (next_id s) rA
             (fetchProducts lB pB (run evs1 (fetchProducts lA pA s)))))) = pg
         \<and> shown_products (settle (next_id s) rA (settle (next_id (run evs1 (fetchProducts lA pA s))) rB
             (fetchProducts lB pB (run evs1 (fetchProducts lA pA s))))) = items
         \<and> pagination (state (settle (next_id s) rA (settle (next_id (run evs1 (fetchProducts lA pA s))) rB
             (fetchProducts lB pB (run evs1 (fetchProducts lA pA s)))))) = pg))"
proof (intro allI conjI impI)
  fix evs1 evs2 r
  define s1 where "s1 = run evs1 (fetchProducts lA pA s)"
  have t: "tracked (next_id s) s1"
    unfolding s1_def by (rule tracked_run [OF issued_tracked [OF assms]])
  note f = superseded_settle_frame [OF superseded_run [OF tracked_superseded [OF t]], of r evs2 lB pB]
  show "state (settle (next_id s) r (run evs2 (fetchProducts lB pB (run evs1 (fetchProducts lA pA s)))))
            = state (run evs2 (fetchProducts lB pB (run evs1 (fetchProducts lA pA s))))"
    using f unfolding s1_def by blast
  show "productsCache (settle (next_id s) r (run evs2 (fetchProducts lB pB (run evs1 (fetchProducts lA pA s)))))
            = productsCache (run evs2 (fetchProducts lB pB (run evs1 (fetchProducts lA pA s))))"
    using f unfolding s1_def by blast
  show "arrays (settle (next_id s) r (run evs2 (fetchProducts lB pB (run evs1 (fetchProducts lA pA s)))))
            = arrays (run evs2 (fetchProducts lB pB (run evs1 (fetchProducts lA pA s))))"
    using f unfolding s1_def by blast
next
  fix evs1 rA rB items pg
  assume b: "requests (fetchProducts lB pB (run evs1 (fetchProducts lA pA s)))
          \<noteq> requests (run evs1 (fetchProducts lA pA s))"
    and ok: "fetch_result rB = Inr (items, pg)"
  have wf1: "wf_hook (run evs1 (fetchProducts lA pA s))"
    by (rule wf_hook_run [OF wf_hook_fetchProducts [OF assms(1)]])
  have t: "tracked (next_id s) (run evs1 (fetchProducts lA pA s))"
    by (rule tracked_run [OF issued_tracked [OF assms]])
  note l = latest_fetch_applied [OF wf1 t b ok, of rA]
  show "shown_products (settle (next_id (run evs1 (fetchProducts lA pA s))) rB (settle (next_id s) rA
             (fetchProducts lB pB (run evs1 (fetchProducts lA pA s))))) = items"
    using l by blast
  show "pagination (state (settle (next_id (run evs1 (fetchProducts lA pA s))) rB (settle (next_id s) rA
             (fetchProducts lB pB (run evs1 (fetchProducts lA pA s)))))) = pg"
    using l by blast
  show "shown_products (settle (next_id s) rA (settle (next_id (run evs1 (fetchProducts lA pA s))) rB
             (fetchProducts lB pB (run evs1 (fetchProducts lA pA s))))) = items"
    using l by blast
  show "pagination (state (settle (next_id s) rA (settle (next_id (run evs1 (fetchProducts lA pA s))) rB
             (fetchProducts lB pB (run evs1 (fetchProducts lA pA s)))))) = pg"
    using l by blast
qed

text \<open>Two fetches on a hook mounted without automatic fetch, 10 ms apart; the first is
  answered with the phone, the second with the tablet.\<close>

theorem superseded_fetch_never_applied_witness:
  "wf_hook mounted_manual
   \<and> requests (fetchProducts False phone_query mounted_manual) \<noteq> requests mounted_manual
   \<and> state (settle 0 page_one_ok (run [Render, Advance 50]
         (fetchProducts True tablet_query (run [Advance 10] (fetchProducts False phone_query mounted_manual)))))
       = state (run [Render, Advance 50]
         (fetchProducts True tablet_query (run [Advance 10] (fetchProducts False phone_query mounted_manual))))
   \<and> shown_products (settle 1 page_two_ok (settle 0 page_one_ok
        (fetchProducts True tablet_query (run [Advance 10] (fetchProducts False phone_query mounted_manual)))))
       = [tablet]
   \<and> shown_products (settle 0 page_one_ok (settle 1 page_two_ok
        (fetchProducts True tablet_query (run [Advance 10] (fetchProducts False phone_query mounted_manual)))))
       = [tablet]"
proof -
  have wf: "wf_hook mounted_manual" by code_simp
  have a: "requests (fetchProducts False phone_query mounted_manual) \<noteq> requests mounted_manual"
    by code_simp
  have b: "requests (fetchProducts True tablet_query (run [Advance 10] (fetchProducts False phone_query mounted_manual)))
             \<noteq> requests (run [Advance 10] (fetchProducts False phone_query mounted_manual))"
    by code_simp
  have n: "next_id mounted_manual = 0"
    "next_id (run [Advance 10] (fetchProducts False phone_query mounted_manual)) = 1" by code_simp+
  have ok: "fetch_result page_two_ok = Inr ([tablet], Some second_page)" by code_simp
  note t = superseded_fetch_never_applied [OF wf a, of True tablet_query, unfolded n,
      THEN spec, of "[Advance 10]", unfolded n]
  from t have 1: "state (settle 0 page_one_ok (run [Render, Advance 50]
         (fetchProducts True tablet_query (run [Advance 10] (fetchProducts False phone_query mounted_manual)))))
       = state (run [Render, Advance 50]
         (fetchProducts True tablet_query (run [Advance 10] (fetchProducts False phone_query mounted_manual))))"
    by blast
  from t b ok have 2: "shown_products (settle 1 page_two_ok (settle 0 page_one_ok
        (fetchProducts True tablet_query (run [Advance 10] (fetchProducts False phone_query mounted_manual)))))
       = [tablet]"
    by blast
  from t b ok have 3: "shown_products (settle 0 page_one_ok (settle 1 page_two_ok
        (fetchProducts True tablet_query (run [Advance 10] (fetchProducts False phone_query mounted_manual)))))
       = [tablet]"
    by blast
  from wf a 1 2 3 show ?thesis by simp
qed

section \<open>The cache and the loading flag\<close>

text \<open>
  Claim C10.  \<^verbatim>\<open>fetchProducts\<close> makes no request exactly when the cache has a live
  entry for the parameters and \<^verbatim>\<open>state.loading\<close>, as the calling closure captured it,
  is false.  With a live entry and \<^verbatim>\<open>state.loading\<close> true the entry is bypassed: a
  request for the same parameters is issued and the products of the state are left
  as they are; with \<^verbatim>\<open>state.loading\<close> false the cached array is published and no
  request is made.
\<close>

theorem cache_hit_only_when_not_loading:
  "(requests (fetchProducts l p s) = requests s
       \<longleftrightarrow> (\<not> l \<and> fst (cache_get (clock s) p (productsCache s)) \<noteq> None))
   \<and> (fst (cache_get (clock s) p (productsCache s)) = Some d \<longrightarrow>
        requests (fetchProducts True p s) =
          requests s @ [\<lparr>rid = next_id s, kind = FetchRequest, req_params = p, query = fetch_query p,
                          signal = Some (next_id s), closure_loading = True\<rparr>]
        \<and> products (state (fetchProducts True p s)) = products (state s)
        \<and> loading (state (fetchProducts True p s))
        \<and> requests (fetchProducts False p s) = requests s
        \<and> products (state (fetchProducts False p s)) = d)"
  by (auto simp: fetchProducts_alt issue_fetch_fields before_fetch_fields issue_fetch_def
      setState_def Let_def split: option.splits)

theorem cache_hit_only_when_not_loading_witness:
  "fst (cache_get (clock settled_first_page) [] (productsCache settled_first_page)) = Some 2
   \<and> map rid (requests settled_first_page) = []
   \<and> map rid (requests (fetchProducts True [] settled_first_page)) = [1]
   \<and> products (state (fetchProducts True [] settled_first_page)) = products (state settled_first_page)
   \<and> requests (fetchProducts False [] settled_first_page) = requests settled_first_page
   \<and> products (state (fetchProducts False [] settled_first_page)) = 2"
proof -
  have h: "fst (cache_get (clock settled_first_page) [] (productsCache settled_first_page)) = Some 2"
    by code_simp
  have e1: "map rid (requests settled_first_page) = []" by code_simp
  have e2: "map rid (requests (fetchProducts True [] settled_first_page)) = [1]" by code_simp
  from cache_hit_only_when_not_loading [where s = settled_first_page and p = "[]" and d = 2
         and l = True] h e1 e2
  show ?thesis by simp
qed

section \<open>loadMore\<close>

lemma handleError_frame:
  "productsCache (handleError e rf s) = productsCache s"
  "arrays (handleError e rf s) = arrays s"
  "products (state (handleError e rf s)) = products (state s)"
  "pagination (state (handleError e rf s)) = pagination (state s)"
  "requests (handleError e rf s) = requests s"
  by (simp_all add: handleError_def setState_def Let_def split: option.splits)

lemma loadMore_resume_cache: "productsCache (loadMore_resume q r s) = productsCache s"
  by (simp add: loadMore_resume_def handleError_frame setState_def Let_def
      split: response.splits sum.splits option.splits)

text \<open>
  Claim C6.  When the rendered pagination has a next page and nothing is loading,
  \<^verbatim>\<open>loadMore\<close> issues one request, for the captured parameters with \<^verbatim>\<open>page\<close> set to
  \<^verbatim>\<open>current_page + 1\<close>, and touches neither the cache nor the arrays.  Its
  continuation never touches the cache; on a successful answer it shows the
  previous items followed by the new ones, replaces the pagination by the
  answer's, and leaves every existing array as it was.
\<close>

theorem loadMore_next_page_appends:
  assumes "pagination cs = Some pg" and "has_next_page pg" and "\<not> loading cs"
  shows "(let s1 = loadMore cs sp s; q = last (requests s1) in
           requests s1 = requests s @ [q] \<and> kind q = LoadMoreRequest
         \<and> req_params q = obj_set sp ''page'' (JNum (current_page pg + 1))
         \<and> map_of (query q) ''page'' = Some (show_int (current_page pg + 1))
         \<and> productsCache s1 = productsCache s \<and> arrays s1 = arrays s
         \<and> (\<forall>s' r. productsCache (loadMore_resume q r s') = productsCache s')
         \<and> (\<forall>s' st m xs pg'. response_ok st \<longrightarrow>
              (let s2 = loadMore_resume q (Response st (Inr \<lparr>success = True, message = m,
                          body_data = Some \<lparr>page_data = Some xs, page_pagination = pg'\<rparr>\<rparr>)) s'
               in shown_products s2 = shown_products s' @ xs
                \<and> pagination (state s2) = pg'
                \<and> (\<forall>a. a < next_ref (arrays s') \<longrightarrow> cells (arrays s2) a = cells (arrays s') a))))"
  using assms
  apply (simp add: loadMore_def Let_def setState_def map_of_query map_of_obj_set loadMore_resume_cache)
  apply (simp add: loadMore_resume_def shown_products_def setState_def alloc_def Let_def)
  done

theorem loadMore_next_page_appends_witness:
  "pagination (rendered_state settled_first_page) = Some first_page
   \<and> has_next_page first_page
   \<and> loading (rendered_state settled_first_page) = False
   \<and> map (\<lambda>q. (kind q, query q)) (requests (step LoadMore settled_first_page))
       = [(LoadMoreRequest, [(''page'', ''2'')])]
   \<and> shown_products (step LoadMore settled_first_page) = [phone]
   \<and> shown_products (settle 1 page_two_ok (step LoadMore settled_first_page)) = [phone, tablet]
   \<and> pagination (state (settle 1 page_two_ok (step LoadMore settled_first_page))) = Some second_page
   \<and> productsCache (step LoadMore settled_first_page) = productsCache settled_first_page"
proof -
  have h1: "pagination (rendered_state settled_first_page) = Some first_page" by code_simp
  have h2: "has_next_page first_page" by code_simp
  have h3: "\<not> loading (rendered_state settled_first_page)" by code_simp
  have e1: "map (\<lambda>q. (kind q, query q)) (requests (step LoadMore settled_first_page))
       = [(LoadMoreRequest, [(''page'', ''2'')])]" by code_simp
  have e2: "shown_products (step LoadMore settled_first_page) = [phone]" by code_simp
  have e3: "shown_products (settle 1 page_two_ok (step LoadMore settled_first_page)) = [phone, tablet]" by code_simp
  have e4: "pagination (state (settle 1 page_two_ok (step LoadMore settled_first_page))) = Some second_page" by code_simp
  from loadMore_next_page_appends [OF h1 h2 h3, of "rendered_params settled_first_page" settled_first_page]
  have "productsCache (step LoadMore settled_first_page) = productsCache settled_first_page"
    by (simp add: Let_def)
  with h1 h2 h3 e1 e2 e3 e4 show ?thesis by simp
qed

text \<open>\<^verbatim>\<open>fetchProducts\<close> treats an envelope with \<^verbatim>\<open>success: false\<close> as a failure: the
  message is recorded, \<^verbatim>\<open>loading\<close> is cleared and the products stay.\<close>

lemma fetch_refusal_recorded:
  assumes "response_ok st" and "\<not> success d"
  shows "error (state (fetchProducts_resume q (Response st (Inr d)) s))
           = Some (message_or (message d) ''Failed to fetch products'')
       \<and> loading (state (fetchProducts_resume q (Response st (Inr d)) s)) = False
       \<and> products (state (fetchProducts_resume q (Response st (Inr d)) s)) = products (state s)
       \<and> arrays (fetchProducts_resume q (Response st (Inr d)) s) = arrays s"
  using assms
  by (simp add: fetchProducts_resume_def fetch_result_def is_abort_def handleError_def
      error_message_def setState_def Let_def split: option.splits)

text \<open>
  Claim C5 at its failing input.  The hook has loaded page one; \<^verbatim>\<open>loadMore\<close> is called
  and the backend answers 200 with \<^verbatim>\<open>{success: false, message: "backend down"}\<close>.
  The condition of line 249 is false and there is no \<^verbatim>\<open>else\<close> branch: no error is
  recorded and \<^verbatim>\<open>loading\<close> stays true, with nothing left in flight.
\<close>

theorem load_more_refusal_ignored:
  "(let s = run [Settle 0 page_one_ok, Render, Render, LoadMore] mounted;
        s' = settle 1 refused s
    in map kind (requests s) = [LoadMoreRequest]
     \<and> error (state s') = None \<and> loading (state s') = True \<and> requests s' = [])"
  by code_simp

text \<open>
  Claim C7 at its failing input.  The page's hook (\<^verbatim>\<open>autoFetch: true\<close>) has loaded page
  one; \<^verbatim>\<open>loadMore\<close> is called and React renders.  \<^verbatim>\<open>loadMore\<close> passes no abort signal
  to \<^verbatim>\<open>fetch\<close>, so the \<^verbatim>\<open>fetchProducts\<close> call of the effect cannot cancel it: two
  requests are in flight.  A call of \<^verbatim>\<open>refetch\<close> then aborts the fetch of the effect and
  issues another, and the load-more request is still in flight.
\<close>

theorem load_more_concurrent_with_fetch:
  "map (\<lambda>q. (rid q, kind q))
     (in_flight (run [Settle 0 page_one_ok, Render, Render, LoadMore, Render] mounted))
     = [(1, LoadMoreRequest), (2, FetchRequest)]
   \<and> map (\<lambda>q. (rid q, kind q))
     (in_flight (run [Settle 0 page_one_ok, Render, Render, LoadMore, Render, Refetch] mounted))
     = [(1, LoadMoreRequest), (3, FetchRequest)]"
  by code_simp

section \<open>updateSearchParams and the fetch effect\<close>

lemma params_inv_cong:
  "rendered_params_id s' = rendered_params_id s \<Longrightarrow> searchParams_id s' = searchParams_id s
   \<Longrightarrow> params_inv s' = params_inv s"
  by (simp add: params_inv_def)

lemma params_inv_handleError: "params_inv (handleError e rf s) = params_inv s"
  by (rule params_inv_cong) (simp_all add: handleError_def setState_def Let_def split: option.splits)

lemma params_inv_fetchProducts: "params_inv (fetchProducts l p s) = params_inv s"
  by (rule params_inv_cong)
     (simp_all add: fetchProducts_def issue_fetch_def setState_def abort_def Let_def
        split: option.splits)

lemma params_inv_loadMore: "params_inv (loadMore cs sp s) = params_inv s"
  by (rule params_inv_cong) (simp_all add: loadMore_def setState_def Let_def split: option.splits)

lemma params_inv_fetchProducts_resume: "params_inv (fetchProducts_resume q r s) = params_inv s"
  by (rule params_inv_cong)
     (simp_all add: fetchProducts_resume_def handleError_def setState_def Let_def
        split: sum.splits option.splits)

lemma params_inv_loadMore_resume: "params_inv (loadMore_resume q r s) = params_inv s"
  by (rule params_inv_cong)
     (simp_all add: loadMore_resume_def handleError_def setState_def Let_def
        split: response.splits sum.splits option.splits)

lemma params_inv_settle: "params_inv (settle j r s) = params_inv s"
proof -
  have "params_inv (s\<lparr>requests := qs\<rparr>) = params_inv s" for qs by (simp add: params_inv_def)
  then show ?thesis
    by (simp add: settle_def Let_def params_inv_fetchProducts_resume params_inv_loadMore_resume
        split: option.splits request_kind.splits)
qed

lemma params_inv_cleanup: "params_inv (effect_cleanup s) = params_inv s"
  by (rule params_inv_cong)
     (simp_all add: effect_cleanup_def abort_def clearTimeout_def Let_def split: option.splits)

lemma params_inv_render: "params_inv (render s)"
proof -
  define s1 where "s1 = s\<lparr>rendered_state := state s, rendered_params := searchParams s,
                           rendered_params_id := searchParams_id s\<rparr>"
  have 1: "params_inv s1" unfolding s1_def by (simp add: params_inv_def)
  then have 2: "params_inv (effect_setup (effect_cleanup s1))"
    by (simp add: effect_setup_def params_inv_cleanup params_inv_fetchProducts)
  have "render s = (if loading (state s) = loading (rendered_state s)
                        \<and> searchParams_id s = rendered_params_id s
                    then s1 else effect_setup (effect_cleanup s1))"
    unfolding render_def s1_def Let_def by (rule refl)
  with 1 2 show ?thesis by simp
qed

lemma params_inv_fire: "params_inv (fire t s) = params_inv s"
proof -
  have "params_inv (s\<lparr>timers := ts, retryTimeoutRef := None\<rparr>) = params_inv s" for ts
    by (simp add: params_inv_def)
  then show ?thesis
    by (simp add: fire_def params_inv_fetchProducts split: option.splits)
qed

lemma params_inv_step: "params_inv s \<Longrightarrow> params_inv (step e s)"
proof (cases e)
  case Render
  then show "params_inv s \<Longrightarrow> ?thesis" by (simp add: params_inv_render)
next
  case Refetch
  then show "params_inv s \<Longrightarrow> ?thesis" by (simp add: refetch_def params_inv_fetchProducts)
next
  case LoadMore
  then show "params_inv s \<Longrightarrow> ?thesis" by (simp add: params_inv_loadMore)
next
  case (UpdateSearchParams np)
  then show "params_inv s \<Longrightarrow> ?thesis" by (simp add: updateSearchParams_def params_inv_def)
next
  case ClearCache
  then show "params_inv s \<Longrightarrow> ?thesis" by (simp add: params_inv_def)
next
  case (Settle j r)
  then show "params_inv s \<Longrightarrow> ?thesis" by (simp add: params_inv_settle)
next
  case (Fire t)
  then show "params_inv s \<Longrightarrow> ?thesis" by (simp add: params_inv_fire)
next
  case (Advance ms)
  then show "params_inv s \<Longrightarrow> ?thesis" by (simp add: params_inv_def)
qed

lemma params_inv_reachable: "rendered_params_id (run evs (mount af ip c st t0)) \<le> searchParams_id (run evs (mount af ip c st t0))"
proof -
  obtain s0 where m: "mount af ip c st t0 = effect_setup s0" and 0: "rendered_params_id s0 = 0"
    by (simp add: mount_def Let_def)
  from 0 have "params_inv s0" by (simp add: params_inv_def)
  then have "params_inv (mount af ip c st t0)"
    using effect_setup_cases [of s0] by (auto simp: m params_inv_fetchProducts)
  then have "params_inv (run evs (mount af ip c st t0))"
    unfolding run_def by (induction evs arbitrary: af ip c st t0 rule: rev_induct) (auto simp: params_inv_step)
  then show ?thesis by (simp add: params_inv_def)
qed

lemma effect_cleanup_fields:
  "requests (effect_cleanup s) = requests s"
  "autoFetch (effect_cleanup s) = autoFetch s"
  "rendered_state (effect_cleanup s) = rendered_state s"
  "rendered_params (effect_cleanup s) = rendered_params s"
  "state (effect_cleanup s) = state s"
  "next_id (effect_cleanup s) = next_id s"
  by (simp_all add: effect_cleanup_def abort_def clearTimeout_def Let_def split: option.splits)

text \<open>
  Claim C8, as amended.  \<^verbatim>\<open>updateSearchParams\<close> replaces \<^verbatim>\<open>searchParams\<close> by the spread
  of the old object and the partial one (field-wise, the partial one wins) and
  does nothing else: no request, no change of the state, the cache, the aborted
  controllers or the timers.  At the render that follows, a hook without
  \<^verbatim>\<open>autoFetch\<close> issues no request; a hook with \<^verbatim>\<open>autoFetch\<close> runs the cleanup of the
  fetch effect and calls \<^verbatim>\<open>fetchProducts\<close> with the merged parameters.
\<close>

theorem updateSearchParams_then_render:
  "(let s1 = updateSearchParams np s in
      searchParams s1 = obj_spread (searchParams s) np
    \<and> (distinct (map fst np) \<longrightarrow> map_of (searchParams s1) = map_of (searchParams s) ++ map_of np)
    \<and> requests s1 = requests s \<and> state s1 = state s \<and> productsCache s1 = productsCache s
    \<and> aborted s1 = aborted s \<and> timers s1 = timers s
    \<and> (\<not> autoFetch s \<longrightarrow> requests (render s1) = requests s)
    \<and> (autoFetch s \<and> rendered_params_id s \<le> searchParams_id s \<longrightarrow>
         render s1 = fetchProducts (loading (state s)) (obj_spread (searchParams s) np)
                       (effect_cleanup (s1\<lparr>rendered_state := state s,
                                           rendered_params := obj_spread (searchParams s) np,
                                           rendered_params_id := Suc (searchParams_id s)\<rparr>))))"
  by (simp add: updateSearchParams_def render_def effect_setup_def effect_cleanup_fields
      map_of_obj_spread Let_def)

theorem updateSearchParams_then_render_witness:
  "autoFetch settled_first_page
   \<and> rendered_params_id settled_first_page \<le> searchParams_id settled_first_page
   \<and> distinct (map fst [(''page'', JNum 2)])
   \<and> searchParams (updateSearchParams [(''page'', JNum 2)] settled_first_page) = [(''page'', JNum 2)]
   \<and> requests (updateSearchParams [(''page'', JNum 2)] settled_first_page) = requests settled_first_page
   \<and> map (\<lambda>q. (kind q, query q)) (requests (render (updateSearchParams [(''page'', JNum 2)] settled_first_page)))
       = [(FetchRequest, [(''page'', ''2'')])]
   \<and> autoFetch mounted_manual = False
   \<and> requests (render (updateSearchParams [(''page'', JNum 2)] mounted_manual)) = requests mounted_manual"
proof -
  have h1: "autoFetch settled_first_page" by code_simp
  have h2: "rendered_params_id settled_first_page \<le> searchParams_id settled_first_page" by code_simp
  have h3: "distinct (map fst [(''page'', JNum 2)])" by simp
  have h4: "\<not> autoFetch mounted_manual" by code_simp
  have e1: "obj_spread (searchParams settled_first_page) [(''page'', JNum 2)] = [(''page'', JNum 2)]"
    by code_simp
  have e2: "map (\<lambda>q. (kind q, query q)) (requests (render (updateSearchParams [(''page'', JNum 2)] settled_first_page)))
       = [(FetchRequest, [(''page'', ''2'')])]" by code_simp
  from updateSearchParams_then_render [where s = settled_first_page and np = "[(''page'', JNum 2)]"]
       updateSearchParams_then_render [where s = mounted_manual and np = "[(''page'', JNum 2)]"]
       h1 h2 h3 h4 e1 e2
  show ?thesis by (simp add: Let_def)
qed

text \<open>
  Claim C8 as stated fails: on the page's hook, after \<^verbatim>\<open>updateSearchParams({page: 2})\<close>
  the next render issues a request for page 2, with no call of \<^verbatim>\<open>refetch\<close>.
\<close>

theorem update_triggers_fetch_counterexample:
  "requests (run [Settle 0 page_one_ok, Render, Render] mounted) = []
   \<and> map (\<lambda>q. (kind q, query q))
       (requests (run [Settle 0 page_one_ok, Render, Render, UpdateSearchParams [(''page'', JNum 2)], Render] mounted))
     = [(FetchRequest, [(''page'', ''2'')])]"
  by code_simp

section \<open>Retries\<close>

lemma retry_inv_cong:
  "timers s' = timers s \<Longrightarrow> retryTimeoutRef s' = retryTimeoutRef s \<Longrightarrow> retry_inv s' = retry_inv s"
  by (simp add: retry_inv_def)

lemma retry_inv_handleError: "retry_inv s \<Longrightarrow> retry_inv (handleError e rf s)"
  by (auto simp: retry_inv_def handleError_def setState_def Let_def split: option.splits)

lemma fetchProducts_timers:
  "timers (fetchProducts l p s) = timers s" "retryTimeoutRef (fetchProducts l p s) = retryTimeoutRef s"
  by (simp_all add: fetchProducts_alt issue_fetch_fields before_fetch_fields setState_def split: option.splits)

lemma retry_inv_fetchProducts: "retry_inv s \<Longrightarrow> retry_inv (fetchProducts l p s)"
  by (simp add: retry_inv_def fetchProducts_timers)

lemma retry_inv_loadMore: "retry_inv s \<Longrightarrow> retry_inv (loadMore cs sp s)"
  by (auto simp: retry_inv_def loadMore_def setState_def Let_def split: option.splits)

lemma retry_inv_upd:
  "retry_inv (setState f (s\<lparr>productsCache := a, arrays := b\<rparr>)) = retry_inv s"
  "retry_inv (setState f (s\<lparr>arrays := b\<rparr>)) = retry_inv s"
  by (rule retry_inv_cong; simp add: setState_def)+

lemma retry_inv_fetchProducts_resume: "retry_inv s \<Longrightarrow> retry_inv (fetchProducts_resume q r s)"
proof (cases "fetch_result r")
  case (Inl e)
  then show "retry_inv s \<Longrightarrow> ?thesis"
    by (simp add: fetchProducts_resume_def retry_inv_handleError)
next
  case (Inr res)
  have "retry_inv (fetchProducts_resume q r s) = retry_inv s"
    by (rule retry_inv_cong) (simp_all add: fetchProducts_resume_def Inr setState_def Let_def)
  then show "retry_inv s \<Longrightarrow> ?thesis" by simp
qed

lemma retry_inv_loadMore_resume: "retry_inv s \<Longrightarrow> retry_inv (loadMore_resume q r s)"
  by (auto simp: loadMore_resume_def retry_inv_handleError retry_inv_upd Let_def
      split: response.splits sum.splits option.splits)

lemma retry_inv_settle: "retry_inv s \<Longrightarrow> retry_inv (settle j r s)"
proof -
  assume a: "retry_inv s"
  have "retry_inv (s\<lparr>requests := qs\<rparr>)" for qs using a by (simp add: retry_inv_def)
  then show ?thesis using a
    by (auto simp: settle_def Let_def retry_inv_fetchProducts_resume retry_inv_loadMore_resume
        split: option.splits request_kind.splits)
qed

lemma retry_inv_cleanup: "retry_inv s \<Longrightarrow> retry_inv (effect_cleanup s)"
  by (auto simp: retry_inv_def effect_cleanup_def abort_def clearTimeout_def Let_def
      split: option.splits)

lemma retry_inv_render: "retry_inv s \<Longrightarrow> retry_inv (render s)"
proof -
  assume a: "retry_inv s"
  define s1 where "s1 = s\<lparr>rendered_state := state s, rendered_params := searchParams s,
                           rendered_params_id := searchParams_id s\<rparr>"
  have 1: "retry_inv s1" using a unfolding s1_def by (simp add: retry_inv_def)
  then have 2: "retry_inv (effect_setup (effect_cleanup s1))"
    by (simp add: effect_setup_def retry_inv_cleanup retry_inv_fetchProducts)
  have "render s = (if loading (state s) = loading (rendered_state s)
                        \<and> searchParams_id s = rendered_params_id s
                    then s1 else effect_setup (effect_cleanup s1))"
    unfolding render_def s1_def Let_def by (rule refl)
  with 1 2 show ?thesis by simp
qed

lemma retry_inv_fire: "retry_inv s \<Longrightarrow> retry_inv (fire t s)"
proof (cases "find (\<lambda>x. tid x = t) (timers s)")
  case None
  then show "retry_inv s \<Longrightarrow> ?thesis" by (simp add: fire_def)
next
  case (Some x)
  assume a: "retry_inv s"
  from Some have "timers s \<noteq> []" by auto
  with a obtain y where y: "timers s = [y]" by (auto simp: retry_inv_def)
  with Some have "tid y = t" by (auto split: if_splits)
  with y have "retry_inv (s\<lparr>timers := filter (\<lambda>y. tid y \<noteq> t) (timers s), retryTimeoutRef := None\<rparr>)"
    by (simp add: retry_inv_def)
  with a Some show ?thesis by (simp add: fire_def retry_inv_fetchProducts)
qed

lemma retry_inv_step: "retry_inv s \<Longrightarrow> retry_inv (step e s)"
proof (cases e)
  case Render
  then show "retry_inv s \<Longrightarrow> ?thesis" by (simp add: retry_inv_render)
next
  case Refetch
  then show "retry_inv s \<Longrightarrow> ?thesis" by (simp add: refetch_def retry_inv_fetchProducts)
next
  case LoadMore
  then show "retry_inv s \<Longrightarrow> ?thesis" by (simp add: retry_inv_loadMore)
next
  case (UpdateSearchParams np)
  then show "retry_inv s \<Longrightarrow> ?thesis" by (simp add: updateSearchParams_def retry_inv_def)
next
  case ClearCache
  then show "retry_inv s \<Longrightarrow> ?thesis" by (simp add: retry_inv_def)
next
  case (Settle j r)
  then show "retry_inv s \<Longrightarrow> ?thesis" by (simp add: retry_inv_settle)
next
  case (Fire t)
  then show "retry_inv s \<Longrightarrow> ?thesis" by (simp add: retry_inv_fire)
next
  case (Advance ms)
  then show "retry_inv s \<Longrightarrow> ?thesis" by (simp add: retry_inv_def)
qed

lemma retry_inv_run: "retry_inv s \<Longrightarrow> retry_inv (run evs s)"
  unfolding run_def by (induction evs arbitrary: s) (auto simp: retry_inv_step)

lemma retry_inv_mount: "retry_inv (mount af ip c st t0)"
proof -
  obtain s0 where m: "mount af ip c st t0 = effect_setup s0" and 0: "timers s0 = []"
    by (simp add: mount_def Let_def)
  from 0 have "retry_inv s0" by (simp add: retry_inv_def)
  then show ?thesis using effect_setup_cases [of s0] by (auto simp: m retry_inv_fetchProducts)
qed

text \<open>In every state a mounted hook can reach, at most one retry timer is armed.\<close>

theorem at_most_one_retry_armed:
  "pending_retries (run evs (mount af ip c st t0)) \<le> 1"
  using retry_inv_run [OF retry_inv_mount, of evs af ip c st t0]
  by (auto simp: retry_inv_def pending_retries_def dest: arg_cong [where f = length])

text \<open>
  \<^verbatim>\<open>handleError\<close> records the message and clears \<^verbatim>\<open>loading\<close>.  Given a retry closure
  it arms one timer, 2000 ms ahead, for the same closure and parameters when
  \<^verbatim>\<open>retryTimeoutRef\<close> is empty, and none when the ref holds a handle; without a retry
  closure (\<^verbatim>\<open>loadMore\<close>) it arms none.
\<close>

theorem handleError_arms_one_retry:
  "(retryTimeoutRef s = None \<longrightarrow>
      timers (handleError e (Some (l, p)) s) = timers s @
        [\<lparr>tid = next_timer s, due = clock s + 2000, retry_loading = l, retry_params = p\<rparr>]
      \<and> retryTimeoutRef (handleError e (Some (l, p)) s) = Some (next_timer s))
   \<and> (retryTimeoutRef s \<noteq> None \<longrightarrow> timers (handleError e (Some (l, p)) s) = timers s
        \<and> retryTimeoutRef (handleError e (Some (l, p)) s) = retryTimeoutRef s)
   \<and> timers (handleError e None s) = timers s
   \<and> error (state (handleError e rf s)) = Some (error_message e)
   \<and> loading (state (handleError e rf s)) = False"
  by (auto simp: handleError_def setState_def Let_def split: option.splits)

theorem handleError_arms_one_retry_witness:
  "retryTimeoutRef mounted = None
   \<and> map (\<lambda>x. (tid x, due x, retry_params x)) (timers (handleError JsOther (Some (True, phone_query)) mounted))
       = [(0, 2000, phone_query)]
   \<and> retryTimeoutRef (handleError JsOther (Some (True, phone_query)) mounted) = Some 0
   \<and> timers (handleError JsOther (Some (True, tablet_query))
        (handleError JsOther (Some (True, phone_query)) mounted))
       = timers (handleError JsOther (Some (True, phone_query)) mounted)"
proof -
  have h: "retryTimeoutRef mounted = None" by code_simp
  have n: "next_timer mounted = 0" "clock mounted = 0" "timers mounted = []" by code_simp+
  note a = handleError_arms_one_retry [where s = mounted and e = JsOther and l = True
      and p = phone_query and rf = None]
  from a h have r: "retryTimeoutRef (handleError JsOther (Some (True, phone_query)) mounted) \<noteq> None"
    by simp
  note b = handleError_arms_one_retry [where s = "handleError JsOther (Some (True, phone_query)) mounted"
      and e = JsOther and l = True and p = tablet_query and rf = None]
  from a b h r n show ?thesis by simp
qed

text \<open>
  Claim C4 at its failing input.  The page's hook is mounted and the backend
  answers 500.  The first failure arms a retry; at the next render \<^verbatim>\<open>state.loading\<close>
  has changed, so \<^verbatim>\<open>fetchProducts\<close> is a new function and React runs the cleanup of
  the fetch effect, which clears the timer and leaves its handle in
  \<^verbatim>\<open>retryTimeoutRef\<close> (lines 300-302), and then the effect, which fetches again.
  When the live request of that render fails in turn, no retry is pending, and
  \<^verbatim>\<open>handleError\<close> arms none: the ref is not empty.
\<close>

theorem retry_not_rescheduled:
  "(let s = run [Settle 0 server_error, Render, Render, Settle 1 server_error] mounted;
        s' = settle 2 server_error s
    in pending_retries (run [Settle 0 server_error] mounted) = 1
     \<and> pending_retries (run [Settle 0 server_error, Render] mounted) = 0
     \<and> map rid (in_flight s) = [2] \<and> pending_retries s = 0
     \<and> error (state s') = Some ''HTTP error! status: 500'' \<and> loading (state s') = False
     \<and> pending_retries s' = 0 \<and> retryTimeoutRef s' = Some 0 \<and> requests s' = [])"
  by code_simp

end
